theory Spec2Isabelle
  imports Main
begin

section \<open>Values and the formatting primitives of Go's \<open>fmt\<close> package\<close>

text \<open>
  The package \<open>alog\<close> stores arbitrary values (\<open>interface{}\<close>) and renders them with
  \<open>fmt.Sprint\<close>, \<open>fmt.Sprintln\<close> and \<open>fmt.Sprintf\<close>.  The values modelled are the nil
  interface, strings, ints and error values (an error is given by the text its
  \<open>Error()\<close> method returns).  The packages \<open>fmt\<close>, \<open>strings\<close> and \<open>log\<close> belong to
  Go's standard library, not to \<open>alog\<close>; their functions are modelled after the
  library's documented behaviour, following \<open>doPrint\<close>, \<open>doPrintln\<close> and \<open>doPrintf\<close>
  of \<open>fmt\<close>.
\<close>

datatype val = VNil | VString string | VInt int | VError string

text \<open>
  Abnormal outcomes.  \<open>IndexOutOfRange i n\<close> is Go's run-time panic
  ``index out of range [i] with length n''; \<open>Panic s\<close> is \<open>panic(s)\<close> raised by
  \<open>Panic\<close>, \<open>Panicf\<close> and \<open>Panicln\<close>; \<open>Exit c\<close> is \<open>os.Exit(c)\<close>.
  \<open>FormatNotModelled\<close> is no behaviour of the program: it marks a format string
  or an operand outside the fragment of \<open>fmt\<close> modelled below.
\<close>

datatype error = IndexOutOfRange int nat | Panic string | Exit int | FormatNotModelled

fun itoa_nat :: "nat \<Rightarrow> string" where
  "itoa_nat n =
     (if n < 10 then [''0123456789'' ! n]
      else itoa_nat (n div 10) @ [''0123456789'' ! (n mod 10)])"

declare itoa_nat.simps [simp del]

definition itoa :: "int \<Rightarrow> string" where
  "itoa i = (if i < 0 then CHR ''-'' # itoa_nat (nat (- i)) else itoa_nat (nat i))"

text \<open>The verb \<open>%v\<close> (also \<open>%+v\<close>, which differs only for structs).\<close>

fun fmt_v :: "val \<Rightarrow> string" where
  "fmt_v VNil = ''<nil>''"
| "fmt_v (VString s) = s"
| "fmt_v (VInt i) = itoa i"
| "fmt_v (VError e) = e"

text \<open>
  \<open>isString\<close> of \<open>doPrint\<close>: the operand is not nil and its kind is \<open>reflect.String\<close>.
\<close>

fun isString :: "val \<Rightarrow> bool" where
  "isString (VString s) = True"
| "isString v = False"

text \<open>
  \<open>fmt.Sprint\<close>: operands are printed with \<open>%v\<close>; a space is added between two
  operands when neither is a string.
\<close>

fun doPrint :: "nat \<Rightarrow> bool \<Rightarrow> val list \<Rightarrow> string" where
  "doPrint argNum prevString [] = []"
| "doPrint argNum prevString (arg # a) =
     (if argNum > 0 \<and> \<not> isString arg \<and> \<not> prevString then '' '' else []) @
     fmt_v arg @ doPrint (Suc argNum) (isString arg) a"

definition fmt_Sprint :: "val list \<Rightarrow> string" where
  "fmt_Sprint a = doPrint 0 False a"

text \<open>\<open>fmt.Sprintln\<close>: a space between all operands, and a newline at the end.\<close>

fun doPrintln :: "nat \<Rightarrow> val list \<Rightarrow> string" where
  "doPrintln argNum [] = [CHR 0x0A]"
| "doPrintln argNum (arg # a) =
     (if argNum > 0 then '' '' else []) @ fmt_v arg @ doPrintln (Suc argNum) a"

definition fmt_Sprintln :: "val list \<Rightarrow> string" where
  "fmt_Sprintln a = doPrintln 0 a"

text \<open>
  \<open>fmt.Sprintf\<close>, for the directives \<open>%%\<close>, \<open>%v\<close>, \<open>%+v\<close>, \<open>%s\<close> and \<open>%d\<close>.  The
  diagnostics of \<open>fmt\<close> are part of the model: a wrong operand type gives
  \<open>%!verb(type=value)\<close>, a missing operand \<open>%!verb(MISSING)\<close>, a lone \<open>%\<close> at the end
  \<open>%!(NOVERB)\<close>, and operands left over \<open>%!(EXTRA type=value, ...)\<close>.  Any other
  directive (flags, width, precision, argument indexes, other verbs), and an
  error value where its concrete Go type would show, is \<open>FormatNotModelled\<close>.
\<close>

fun badVerb :: "char \<Rightarrow> val \<Rightarrow> error + string" where
  "badVerb c VNil = Inr (''%!'' @ [c] @ ''(<nil>)'')"
| "badVerb c (VString s) = Inr (''%!'' @ [c] @ ''(string='' @ s @ '')'')"
| "badVerb c (VInt i) = Inr (''%!'' @ [c] @ ''(int='' @ itoa i @ '')'')"
| "badVerb c (VError e) = Inl FormatNotModelled"

fun printArg :: "val \<Rightarrow> char \<Rightarrow> error + string" where
  "printArg arg c =
     (if c = CHR ''v'' then Inr (fmt_v arg)
      else if c = CHR ''s'' then
        (case arg of VString s \<Rightarrow> Inr s | VError e \<Rightarrow> Inr e | _ \<Rightarrow> badVerb c arg)
      else if c = CHR ''d'' then
        (case arg of VInt i \<Rightarrow> Inr (itoa i) | _ \<Rightarrow> badVerb c arg)
      else Inl FormatNotModelled)"

definition app :: "string \<Rightarrow> error + string \<Rightarrow> error + string" where
  "app s r = (case r of Inl e \<Rightarrow> Inl e | Inr t \<Rightarrow> Inr (s @ t))"

fun extraArg :: "val \<Rightarrow> error + string" where
  "extraArg VNil = Inr ''<nil>''"
| "extraArg (VString s) = Inr (''string='' @ s)"
| "extraArg (VInt i) = Inr (''int='' @ itoa i)"
| "extraArg (VError e) = Inl FormatNotModelled"

fun extraArgs :: "nat \<Rightarrow> val list \<Rightarrow> error + string" where
  "extraArgs i [] = Inr '')''"
| "extraArgs i (arg # a) =
     (case extraArg arg of
        Inl e \<Rightarrow> Inl e
      | Inr s \<Rightarrow> app ((if i > 0 then '', '' else []) @ s) (extraArgs (Suc i) a))"

definition extra :: "val list \<Rightarrow> error + string" where
  "extra a = (if a = [] then Inr [] else app ''%!(EXTRA '' (extraArgs 0 a))"

text \<open>
  The scanner of \<open>doPrintf\<close>: \<open>Lit\<close> outside a directive, \<open>Pct\<close> after a \<open>%\<close>,
  \<open>PctPlus\<close> after \<open>%+\<close>.  The list \<open>a\<close> holds the operands not yet consumed.
\<close>

datatype pstate = Lit | Pct | PctPlus

fun doPrintf :: "pstate \<Rightarrow> string \<Rightarrow> val list \<Rightarrow> error + string" where
  "doPrintf Lit [] a = extra a"
| "doPrintf Lit (c # f) a =
     (if c = CHR ''%'' then doPrintf Pct f a else app [c] (doPrintf Lit f a))"
| "doPrintf Pct [] a = app ''%!(NOVERB)'' (extra a)"
| "doPrintf Pct (c # f) a =
     (if c = CHR ''%'' then app ''%'' (doPrintf Lit f a)
      else if c = CHR ''+'' then doPrintf PctPlus f a
      else if c = CHR ''v'' \<or> c = CHR ''s'' \<or> c = CHR ''d'' then
        (case a of
           [] \<Rightarrow> app (''%!'' @ [c] @ ''(MISSING)'') (doPrintf Lit f [])
         | arg # a' \<Rightarrow>
             (case printArg arg c of
                Inl e \<Rightarrow> Inl e
              | Inr s \<Rightarrow> app s (doPrintf Lit f a')))
      else Inl FormatNotModelled)"
| "doPrintf PctPlus [] a = app ''%!(NOVERB)'' (extra a)"
| "doPrintf PctPlus (c # f) a =
     (if c = CHR ''v'' then
        (case a of
           [] \<Rightarrow> app ''%!v(MISSING)'' (doPrintf Lit f [])
         | arg # a' \<Rightarrow> app (fmt_v arg) (doPrintf Lit f a'))
      else Inl FormatNotModelled)"

definition fmt_Sprintf :: "string \<Rightarrow> val list \<Rightarrow> error + string" where
  "fmt_Sprintf f a = doPrintf Lit f a"

text \<open>\<open>strings.Join\<close>.\<close>

fun Join :: "string list \<Rightarrow> string \<Rightarrow> string" where
  "Join [] sep = []"
| "Join [x] sep = x"
| "Join (x # y # xs) sep = x @ sep @ Join (y # xs) sep"

section \<open>The program state\<close>

text \<open>
  A \<open>*Meta\<close>, a Go map, a \<open>*log.Logger\<close> and a \<open>*Log\<close> are references into a store,
  so that two objects sharing a map can be told from two objects with equal maps.
  \<open>nxt\<close> is the next unused address; \<open>written out\<close> lists what the writer \<open>out\<close>
  has received, one element for each \<open>Write\<close> call; \<open>header flags calldepth\<close> is the
  text (time stamp, file and line) that the clock and the call stack make
  \<open>log.Logger\<close> put before a line; \<open>std_flags\<close> is what \<open>log.Flags()\<close> returns, and
  \<open>fallback_flags\<close> what it returned when the package variable \<open>fallback\<close> was
  initialised.  The mutex of \<open>Meta\<close> has no part in a sequential
  run and is left out.
\<close>

type_synonym ref = nat

record MetaEntry =
  entry_value :: val
  entry_order :: int

type_synonym gomap = "string \<rightharpoonup> MetaEntry"

text \<open>The field \<open>entries\<close> is \<open>None\<close> for the nil map.\<close>

record Meta =
  entries :: "ref option"

datatype writer = Stdout | Writer nat

record Logger =
  logger_out :: writer
  logger_flags :: int

record Log =
  log_Logger :: ref
  log_Meta :: ref
  log_out :: writer
  log_calldepth :: int

record world =
  gomaps :: "ref \<Rightarrow> gomap"
  metas :: "ref \<Rightarrow> Meta"
  loggers :: "ref \<Rightarrow> Logger"
  logs :: "ref \<Rightarrow> Log"
  nxt :: ref
  written :: "writer \<Rightarrow> string list"
  header :: "int \<Rightarrow> int \<Rightarrow> string"
  std_flags :: int
  fallback_flags :: int

section \<open>Meta: the ordered metadata store\<close>

text \<open>Reading \<open>m.entries\<close>: the nil map reads as the empty map.\<close>

definition entries_of :: "world \<Rightarrow> ref \<Rightarrow> gomap" where
  "entries_of w m = (case entries (metas w m) of None \<Rightarrow> Map.empty | Some r \<Rightarrow> gomaps w r)"

text \<open>\<open>&Meta{}\<close>: a fresh store whose map is nil.\<close>

definition new_Meta :: "world \<Rightarrow> ref \<times> world" where
  "new_Meta w =
     (nxt w, w\<lparr>metas := (metas w)(nxt w := \<lparr>entries = None\<rparr>), nxt := Suc (nxt w)\<rparr>)"

text \<open>\<open>m.get(k)\<close>: a missing key gives the zero \<open>MetaEntry\<close>, whose value is nil.\<close>

definition Meta_get :: "ref \<Rightarrow> string \<Rightarrow> world \<Rightarrow> val" where
  "Meta_get m k w = (case entries_of w m k of None \<Rightarrow> VNil | Some vi \<Rightarrow> entry_value vi)"

text \<open>
  \<open>m.set(k, v)\<close>: a nil map is replaced by a new empty map first.  \<open>set_entry\<close> is
  the rest of the body, on the map's contents: an existing key keeps its order,
  a new key gets \<open>len(m.entries)\<close>.
\<close>

definition set_entry :: "gomap \<Rightarrow> string \<Rightarrow> val \<Rightarrow> gomap" where
  "set_entry es k v =
     (case es k of
        Some vi \<Rightarrow> es(k \<mapsto> \<lparr>entry_value = v, entry_order = entry_order vi\<rparr>)
      | None \<Rightarrow> es(k \<mapsto> \<lparr>entry_value = v, entry_order = int (card (dom es))\<rparr>))"

definition Meta_set :: "ref \<Rightarrow> string \<Rightarrow> val \<Rightarrow> world \<Rightarrow> world" where
  "Meta_set m k v w =
     (case entries (metas w m) of
        Some r \<Rightarrow> w\<lparr>gomaps := (gomaps w)(r := set_entry (gomaps w r) k v)\<rparr>
      | None \<Rightarrow>
          w\<lparr>gomaps := (gomaps w)(nxt w := set_entry Map.empty k v),
            metas := (metas w)(m := \<lparr>entries = Some (nxt w)\<rparr>),
            nxt := Suc (nxt w)\<rparr>)"

text \<open>\<open>m.del(k)\<close>: \<open>delete\<close> on a nil map does nothing.\<close>

definition Meta_del :: "ref \<Rightarrow> string \<Rightarrow> world \<Rightarrow> world" where
  "Meta_del m k w =
     (case entries (metas w m) of
        None \<Rightarrow> w
      | Some r \<Rightarrow> w\<lparr>gomaps := (gomaps w)(r := (gomaps w r)(k := None))\<rparr>)"

text \<open>
  A \<open>range\<close> over a Go map yields its entries in an order the language leaves open.
  The functions that range over a map take that order as the list \<open>ps\<close> of the
  (key, entry) pairs yielded; \<open>enumerates ps es\<close> says that \<open>ps\<close> is such an order
  for the map \<open>es\<close>: every entry once.
\<close>

definition enumerates :: "(string \<times> MetaEntry) list \<Rightarrow> gomap \<Rightarrow> bool" where
  "enumerates ps es = (distinct (map fst ps) \<and> map_of ps = es)"

text \<open>
  The loop of \<open>format\<close>: \<open>pts[vi.order] = fmt.Sprintf("%s=%+v", k, vi.value)\<close>.  The
  right-hand side is evaluated first; the assignment panics when the index is
  not within the slice.
\<close>

fun place :: "(string \<times> MetaEntry) list \<Rightarrow> string list \<Rightarrow> error + string list" where
  "place [] pts = Inr pts"
| "place ((k, vi) # ps) pts =
     (case fmt_Sprintf ''%s=%+v'' [VString k, entry_value vi] of
        Inl e \<Rightarrow> Inl e
      | Inr s \<Rightarrow>
          if 0 \<le> entry_order vi \<and> entry_order vi < int (length pts)
          then place ps (pts[nat (entry_order vi) := s])
          else Inl (IndexOutOfRange (entry_order vi) (length pts)))"

text \<open>
  \<open>m.format(delim, format)\<close> reads the map of \<open>m\<close>; \<open>format_entries\<close> is its body on
  the map's contents.
\<close>

definition format_entries ::
  "(string \<times> MetaEntry) list \<Rightarrow> gomap \<Rightarrow> string \<Rightarrow> string \<Rightarrow> error + string" where
  "format_entries ps es delim format =
     (if card (dom es) = 0 then Inr []
      else
        (case place ps (replicate (card (dom es)) []) of
           Inl e \<Rightarrow> Inl e
         | Inr pts \<Rightarrow>
             (if format = [] then Inr (Join pts delim)
              else fmt_Sprintf format [VString (Join pts delim)])))"

definition Meta_format ::
  "(string \<times> MetaEntry) list \<Rightarrow> ref \<Rightarrow> string \<Rightarrow> string \<Rightarrow> world \<Rightarrow> error + string" where
  "Meta_format ps m delim format w = format_entries ps (entries_of w m) delim format"

text \<open>
  \<open>m.copy()\<close>: a nil map stays nil; otherwise a new map is made and filled by a
  loop over the source.  The result is a new \<open>Meta\<close>.
\<close>

fun copy_loop :: "(string \<times> MetaEntry) list \<Rightarrow> gomap \<Rightarrow> gomap" where
  "copy_loop [] es = es"
| "copy_loop ((k, v) # ps) es = copy_loop ps (es(k \<mapsto> v))"

definition Meta_copy :: "(string \<times> MetaEntry) list \<Rightarrow> ref \<Rightarrow> world \<Rightarrow> ref \<times> world" where
  "Meta_copy ps m w =
     (case entries (metas w m) of
        None \<Rightarrow>
          (nxt w, w\<lparr>metas := (metas w)(nxt w := \<lparr>entries = None\<rparr>), nxt := Suc (nxt w)\<rparr>)
      | Some r \<Rightarrow>
          (Suc (nxt w),
           w\<lparr>gomaps := (gomaps w)(nxt w := copy_loop ps Map.empty),
             metas := (metas w)(Suc (nxt w) := \<lparr>entries = Some (nxt w)\<rparr>),
             nxt := Suc (Suc (nxt w))\<rparr>))"

section \<open>The standard logger \<open>log.Logger\<close>\<close>

text \<open>\<open>log.New(out, "", flags)\<close>: the prefix of the standard logger is always empty here.\<close>

definition log_New :: "writer \<Rightarrow> int \<Rightarrow> world \<Rightarrow> ref \<times> world" where
  "log_New out flags w =
     (nxt w,
      w\<lparr>loggers := (loggers w)(nxt w := \<lparr>logger_out = out, logger_flags = flags\<rparr>),
        nxt := Suc (nxt w)\<rparr>)"

definition Logger_SetFlags :: "ref \<Rightarrow> int \<Rightarrow> world \<Rightarrow> world" where
  "Logger_SetFlags lg flags w =
     w\<lparr>loggers := (loggers w)(lg := (loggers w lg)\<lparr>logger_flags := flags\<rparr>)\<rparr>"

text \<open>
  \<open>Output(calldepth, s)\<close> hands one line to the writer in one \<open>Write\<close>: the header
  (empty when no flag is set), then \<open>s\<close>, then a newline unless \<open>s\<close> ends in one.
\<close>

definition Logger_line :: "Logger \<Rightarrow> int \<Rightarrow> string \<Rightarrow> world \<Rightarrow> string" where
  "Logger_line l calldepth s w =
     (if logger_flags l = 0 then [] else header w (logger_flags l) calldepth) @ s @
     (if s = [] \<or> last s \<noteq> CHR 0x0A then [CHR 0x0A] else [])"

definition Logger_Output :: "Logger \<Rightarrow> int \<Rightarrow> string \<Rightarrow> world \<Rightarrow> world" where
  "Logger_Output l calldepth s w =
     w\<lparr>written := (written w)
          (logger_out l := written w (logger_out l) @ [Logger_line l calldepth s w])\<rparr>"

section \<open>Log: the annotated logger\<close>

definition defaultCalldepth :: int where
  "defaultCalldepth = 3"

text \<open>The package variable \<open>fallback = log.New(os.Stdout, "", log.Flags())\<close>.\<close>

definition fallback :: "world \<Rightarrow> Logger" where
  "fallback w = \<lparr>logger_out = Stdout, logger_flags = fallback_flags w\<rparr>"

text \<open>A \<open>*Log\<close> is \<open>None\<close> when nil.\<close>

definition newAdvanced :: "writer \<Rightarrow> int \<Rightarrow> int \<Rightarrow> world \<Rightarrow> ref option \<times> world" where
  "newAdvanced out flags calldepth w =
     (let (lg, w1) = log_New out flags w;
          (mt, w2) = new_Meta w1
      in (Some (nxt w2),
          w2\<lparr>logs := (logs w2)
                (nxt w2 := \<lparr>log_Logger = lg, log_Meta = mt, log_out = out,
                             log_calldepth = calldepth\<rparr>),
             nxt := Suc (nxt w2)\<rparr>))"

definition New :: "writer \<Rightarrow> world \<Rightarrow> ref option \<times> world" where
  "New out w = newAdvanced out (std_flags w) defaultCalldepth w"

definition Log_Copy ::
  "(string \<times> MetaEntry) list \<Rightarrow> ref option \<Rightarrow> world \<Rightarrow> ref option \<times> world" where
  "Log_Copy ps a w =
     (case a of
        None \<Rightarrow> (None, w)
      | Some r \<Rightarrow>
          (let l = logs w r;
               (lg, w1) = log_New (log_out l) (logger_flags (loggers w (log_Logger l))) w;
               (mt, w2) = Meta_copy ps (log_Meta l) w1
           in (Some (nxt w2),
               w2\<lparr>logs := (logs w2)
                     (nxt w2 := \<lparr>log_Logger = lg, log_Meta = mt, log_out = log_out l,
                                  log_calldepth = defaultCalldepth\<rparr>),
                  nxt := Suc (nxt w2)\<rparr>)))"

definition Log_Set :: "ref option \<Rightarrow> string \<Rightarrow> val \<Rightarrow> world \<Rightarrow> ref option \<times> world" where
  "Log_Set a k v w =
     (case a of
        None \<Rightarrow> (None, w)
      | Some r \<Rightarrow> (Some r, Meta_set (log_Meta (logs w r)) k v w))"

text \<open>An \<open>error\<close> operand: \<open>None\<close> is the nil error, \<open>Some e\<close> an error whose text is \<open>e\<close>.\<close>

fun err_val :: "string option \<Rightarrow> val" where
  "err_val None = VNil"
| "err_val (Some e) = VError e"

text \<open>\<open>a.Set("error", fmt.Sprintf("'%s'", err))\<close>: the operand is evaluated before the call.\<close>

definition Log_SetError ::
  "ref option \<Rightarrow> string option \<Rightarrow> world \<Rightarrow> (error + ref option) \<times> world" where
  "Log_SetError a err w =
     (case fmt_Sprintf ([CHR 0x27] @ ''%s'' @ [CHR 0x27]) [err_val err] of
        Inl e \<Rightarrow> (Inl e, w)
      | Inr s \<Rightarrow> (let (r, w1) = Log_Set a ''error'' (VString s) w in (Inr r, w1)))"

definition Log_With ::
  "(string \<times> MetaEntry) list \<Rightarrow> ref option \<Rightarrow> string \<Rightarrow> val \<Rightarrow> world \<Rightarrow> ref option \<times> world" where
  "Log_With ps a k v w = (let (c, w1) = Log_Copy ps a w in Log_Set c k v w1)"

definition Log_WithError ::
  "(string \<times> MetaEntry) list \<Rightarrow> ref option \<Rightarrow> string option \<Rightarrow> world
     \<Rightarrow> (error + ref option) \<times> world" where
  "Log_WithError ps a err w = (let (c, w1) = Log_Copy ps a w in Log_SetError c err w1)"

definition Log_prefix :: "(string \<times> MetaEntry) list \<Rightarrow> ref option \<Rightarrow> world \<Rightarrow> error + string" where
  "Log_prefix ps a w =
     (case a of
        None \<Rightarrow> Inr []
      | Some r \<Rightarrow> Meta_format ps (log_Meta (logs w r)) '' '' ''[%s]'' w)"

definition Log_addPrefix ::
  "(string \<times> MetaEntry) list \<Rightarrow> ref option \<Rightarrow> string \<Rightarrow> world \<Rightarrow> error + string" where
  "Log_addPrefix ps a s w =
     (case Log_prefix ps a w of
        Inl e \<Rightarrow> Inl e
      | Inr prefix \<Rightarrow> Inr (if prefix \<noteq> [] then prefix @ '' '' @ s else s))"

text \<open>The result \<open>[]\<close> stands for the nil slice.\<close>

definition Log_buildPrefixArgs ::
  "(string \<times> MetaEntry) list \<Rightarrow> ref option \<Rightarrow> world \<Rightarrow> error + val list" where
  "Log_buildPrefixArgs ps a w =
     (case Log_prefix ps a w of
        Inl e \<Rightarrow> Inl e
      | Inr prefix \<Rightarrow> Inr (if prefix \<noteq> [] then [VString prefix, VString '' ''] else []))"

definition Log_Sprint ::
  "(string \<times> MetaEntry) list \<Rightarrow> ref option \<Rightarrow> val list \<Rightarrow> world \<Rightarrow> error + string" where
  "Log_Sprint ps a v w =
     (case Log_buildPrefixArgs ps a w of
        Inl e \<Rightarrow> Inl e
      | Inr pa \<Rightarrow> Inr (fmt_Sprint (pa @ v)))"

definition Log_Sprintf ::
  "(string \<times> MetaEntry) list \<Rightarrow> ref option \<Rightarrow> string \<Rightarrow> val list \<Rightarrow> world \<Rightarrow> error + string" where
  "Log_Sprintf ps a f v w =
     (case Log_addPrefix ps a f w of
        Inl e \<Rightarrow> Inl e
      | Inr f' \<Rightarrow> fmt_Sprintf f' v)"

definition Log_Sprintln ::
  "(string \<times> MetaEntry) list \<Rightarrow> ref option \<Rightarrow> val list \<Rightarrow> world \<Rightarrow> error + string" where
  "Log_Sprintln ps a v w =
     (case Log_buildPrefixArgs ps a w of
        Inl e \<Rightarrow> Inl e
      | Inr pa \<Rightarrow> Inr (fmt_Sprintln (pa @ v)))"

definition Log_output :: "ref option \<Rightarrow> string \<Rightarrow> world \<Rightarrow> world" where
  "Log_output a s w =
     (case a of
        None \<Rightarrow> Logger_Output (fallback w) defaultCalldepth s w
      | Some r \<Rightarrow>
          Logger_Output (loggers w (log_Logger (logs w r))) (log_calldepth (logs w r)) s w)"

text \<open>
  The emitting methods return the outcome and the state reached.  A panic inside
  \<open>Sprint\<close>, \<open>Sprintf\<close> or \<open>Sprintln\<close> ends the call before anything is written.
\<close>

definition Log_Print ::
  "(string \<times> MetaEntry) list \<Rightarrow> ref option \<Rightarrow> val list \<Rightarrow> world \<Rightarrow> (error + unit) \<times> world" where
  "Log_Print ps a v w =
     (case Log_Sprint ps a v w of
        Inl e \<Rightarrow> (Inl e, w)
      | Inr s \<Rightarrow> (Inr (), Log_output a s w))"

definition Log_Printf ::
  "(string \<times> MetaEntry) list \<Rightarrow> ref option \<Rightarrow> string \<Rightarrow> val list \<Rightarrow> world
     \<Rightarrow> (error + unit) \<times> world" where
  "Log_Printf ps a f v w =
     (case Log_Sprintf ps a f v w of
        Inl e \<Rightarrow> (Inl e, w)
      | Inr s \<Rightarrow> (Inr (), Log_output a s w))"

definition Log_Println ::
  "(string \<times> MetaEntry) list \<Rightarrow> ref option \<Rightarrow> val list \<Rightarrow> world \<Rightarrow> (error + unit) \<times> world" where
  "Log_Println ps a v w =
     (case Log_Sprintln ps a v w of
        Inl e \<Rightarrow> (Inl e, w)
      | Inr s \<Rightarrow> (Inr (), Log_output a s w))"

text \<open>\<open>Panic\<close>, \<open>Panicf\<close>, \<open>Panicln\<close> and \<open>Fatal\<close>, \<open>Fatalf\<close>, \<open>Fatalln\<close> never return.\<close>

definition Log_Panic ::
  "(string \<times> MetaEntry) list \<Rightarrow> ref option \<Rightarrow> val list \<Rightarrow> world \<Rightarrow> error \<times> world" where
  "Log_Panic ps a v w =
     (case Log_Sprint ps a v w of
        Inl e \<Rightarrow> (e, w)
      | Inr s \<Rightarrow> (Panic (fmt_Sprint v), Log_output a s w))"

definition Log_Panicf ::
  "(string \<times> MetaEntry) list \<Rightarrow> ref option \<Rightarrow> string \<Rightarrow> val list \<Rightarrow> world \<Rightarrow> error \<times> world" where
  "Log_Panicf ps a f v w =
     (case Log_Sprintf ps a f v w of
        Inl e \<Rightarrow> (e, w)
      | Inr s \<Rightarrow>
          (case fmt_Sprintf f v of
             Inl e \<Rightarrow> (e, Log_output a s w)
           | Inr t \<Rightarrow> (Panic t, Log_output a s w)))"

definition Log_Panicln ::
  "(string \<times> MetaEntry) list \<Rightarrow> ref option \<Rightarrow> val list \<Rightarrow> world \<Rightarrow> error \<times> world" where
  "Log_Panicln ps a v w =
     (case Log_Sprintln ps a v w of
        Inl e \<Rightarrow> (e, w)
      | Inr s \<Rightarrow> (Panic (fmt_Sprintln v), Log_output a s w))"

definition Log_Fatal ::
  "(string \<times> MetaEntry) list \<Rightarrow> ref option \<Rightarrow> val list \<Rightarrow> world \<Rightarrow> error \<times> world" where
  "Log_Fatal ps a v w =
     (case Log_Sprint ps a v w of
        Inl e \<Rightarrow> (e, w)
      | Inr s \<Rightarrow> (Exit 1, Log_output a s w))"

definition Log_Fatalf ::
  "(string \<times> MetaEntry) list \<Rightarrow> ref option \<Rightarrow> string \<Rightarrow> val list \<Rightarrow> world \<Rightarrow> error \<times> world" where
  "Log_Fatalf ps a f v w =
     (case Log_Sprintf ps a f v w of
        Inl e \<Rightarrow> (e, w)
      | Inr s \<Rightarrow> (Exit 1, Log_output a s w))"

definition Log_Fatalln ::
  "(string \<times> MetaEntry) list \<Rightarrow> ref option \<Rightarrow> val list \<Rightarrow> world \<Rightarrow> error \<times> world" where
  "Log_Fatalln ps a v w =
     (case Log_Sprintln ps a v w of
        Inl e \<Rightarrow> (e, w)
      | Inr s \<Rightarrow> (Exit 1, Log_output a s w))"

text \<open>The state before anything is allocated or written.\<close>

definition world0 :: world where
  "world0 =
     \<lparr>gomaps = (\<lambda>r. Map.empty), metas = (\<lambda>r. \<lparr>entries = None\<rparr>),
      loggers = (\<lambda>r. \<lparr>logger_out = Stdout, logger_flags = 0\<rparr>),
      logs = (\<lambda>r. \<lparr>log_Logger = 0, log_Meta = 0, log_out = Stdout, log_calldepth = 0\<rparr>),
      nxt = 0, written = (\<lambda>out. []), header = (\<lambda>flags calldepth. ''2009/11/10 23:00:00 ''),
      std_flags = 3, fallback_flags = 3\<rparr>"

section \<open>Runs of operations and example states\<close>

text \<open>A sequence of \<open>set\<close> calls on the store \<open>m\<close>, in the order of the list.\<close>

fun set_calls :: "ref \<Rightarrow> (string \<times> val) list \<Rightarrow> world \<Rightarrow> world" where
  "set_calls m [] w = w"
| "set_calls m ((k, v) # kvs) w = set_calls m kvs (Meta_set m k v w)"

text \<open>\<open>m := &Meta{}\<close> in the initial state: the store is at address 0.\<close>

definition store0 :: world where
  "store0 = snd (new_Meta world0)"

text \<open>The stores of the package's test: \<open>set("foo", "bar")\<close>, then \<open>set("t", 7)\<close>.\<close>

definition foo_t_store :: world where
  "foo_t_store = set_calls 0 [(''foo'', VString ''bar''), (''t'', VInt 7)] store0"

text \<open>The store of the test after \<open>del("foo")\<close>: the entry left, \<open>t\<close>, has order 1.\<close>

definition t_only_store :: world where
  "t_only_store = Meta_del 0 ''foo'' foo_t_store"

text \<open>\<open>set("a", 1)\<close>, \<open>set("b", 2)\<close>, \<open>del("a")\<close>: the entry left has order 1.\<close>

definition gap_store :: world where
  "gap_store = Meta_del 0 ''a'' (set_calls 0 [(''a'', VInt 1), (''b'', VInt 2)] store0)"

text \<open>Then \<open>set("c", 3)\<close>: the new entry gets \<open>len(m.entries)\<close>, which is 1 again.\<close>

definition collide_store :: world where
  "collide_store = Meta_set 0 ''c'' (VInt 3) gap_store"

text \<open>The store of the test before the copy: \<open>foo\<close> overwritten with \<open>baz\<close>.\<close>

definition baz_store :: world where
  "baz_store = Meta_set 0 ''foo'' (VString ''baz'') foo_t_store"

text \<open>A mutation of a store, and a sequence of mutations of the store \<open>m\<close>.\<close>

datatype mop = SetOp string val | DelOp string

fun apply_op :: "ref \<Rightarrow> mop \<Rightarrow> world \<Rightarrow> world" where
  "apply_op m (SetOp k v) w = Meta_set m k v w"
| "apply_op m (DelOp k) w = Meta_del m k w"

fun run_ops :: "ref \<Rightarrow> mop list \<Rightarrow> world \<Rightarrow> world" where
  "run_ops m [] w = w"
| "run_ops m (op # ops) w = run_ops m ops (apply_op m op w)"

text \<open>
  The store \<open>m\<close> has been allocated, and so has its map.  Two stores are
  separate when they are different objects and their maps are different objects.
\<close>

definition allocated :: "world \<Rightarrow> ref \<Rightarrow> bool" where
  "allocated w m =
     (m < nxt w \<and> (case entries (metas w m) of None \<Rightarrow> True | Some r \<Rightarrow> r < nxt w))"

definition separate :: "world \<Rightarrow> ref \<Rightarrow> ref \<Rightarrow> bool" where
  "separate w m n =
     (m \<noteq> n \<and> allocated w m \<and> allocated w n \<and>
      (case entries (metas w m) of None \<Rightarrow> True | Some r \<Rightarrow> entries (metas w n) \<noteq> Some r))"

text \<open>
  The logger of the package's test: \<open>New(t)\<close>, \<open>SetFlags(0)\<close>, \<open>Set("foo", "bar")\<close>,
  \<open>Set("key", 7)\<close>.  In the initial state \<open>New\<close> puts the standard logger at
  address 0, the store at 1 and the \<open>Log\<close> at 2.
\<close>

definition test_world :: world where
  "test_world =
     snd (Log_Set (Some 2) ''key'' (VInt 7)
       (snd (Log_Set (Some 2) ''foo'' (VString ''bar'')
         (Logger_SetFlags 0 0 (snd (New (Writer 0) world0))))))"

text \<open>A logger whose metadata value holds a formatting verb: \<open>New(t).Set("k", "%s")\<close>.\<close>

definition pct_world :: world where
  "pct_world = snd (Log_Set (Some 2) ''k'' (VString ''%s'') (snd (New (Writer 0) world0)))"

text \<open>A logger made with another call depth: \<open>newAdvanced(t, 0, 7)\<close>.\<close>

definition deep_world :: world where
  "deep_world = snd (newAdvanced (Writer 0) 0 7 world0)"

text \<open>A logger with no metadata: \<open>New(t)\<close>.\<close>

definition fresh_world :: world where
  "fresh_world = snd (New (Writer 0) world0)"

section \<open>Notions used to state the properties\<close>

text \<open>The rendering \<open>key=value\<close> of an entry.\<close>

definition key_value :: "string \<times> MetaEntry \<Rightarrow> string" where
  "key_value p = fst p @ ''='' @ fmt_v (entry_value (snd p))"

text \<open>
  The order numbers of the entries \<open>ps\<close> are \<open>0, ..., length ps - 1\<close>, each once:
  no two entries share a number and every number is below the number of
  entries.
\<close>

definition dense :: "(string \<times> MetaEntry) list \<Rightarrow> bool" where
  "dense ps =
     (distinct (map (entry_order \<circ> snd) ps) \<and>
      list_all (\<lambda>p. 0 \<le> entry_order (snd p) \<and> entry_order (snd p) < int (length ps)) ps)"

text \<open>What the loop of \<open>format\<close> leaves in the slice when no index is out of range.\<close>

fun placed :: "(string \<times> MetaEntry) list \<Rightarrow> string list \<Rightarrow> string list" where
  "placed [] pts = pts"
| "placed (p # ps) pts = placed ps (pts[nat (entry_order (snd p)) := key_value p])"

text \<open>
  The prefix of a logger whose entries are \<open>ps\<close>: the renderings, sorted by order
  number and joined by spaces, in brackets.
\<close>

definition bracketed :: "(string \<times> MetaEntry) list \<Rightarrow> string" where
  "bracketed ps = ''['' @ Join (map key_value (sort_key (entry_order \<circ> snd) ps)) '' '' @ '']''"

text \<open>
  The invariant of the stores: the map of a store is allocated, no two stores
  share a map, and the order numbers of every store are \<open>0, ..., n - 1\<close>, each
  once.
\<close>

definition stores_ok :: "world \<Rightarrow> bool" where
  "stores_ok w =
     ((\<forall>m r. entries (metas w m) = Some r \<longrightarrow> r < nxt w) \<and>
      (\<forall>m m' r. entries (metas w m) = Some r \<longrightarrow> entries (metas w m') = Some r \<longrightarrow> m = m') \<and>
      (\<forall>m. \<exists>ps. enumerates ps (entries_of w m) \<and> dense ps))"

text \<open>
  The states reached from a state in which nothing is allocated (whatever the
  clock, the flags and the writers are) through the constructors and the
  methods of \<open>Log\<close>, and through \<open>SetFlags\<close> of the embedded standard logger.
  \<open>With\<close> and \<open>WithError\<close> are a \<open>Copy\<close> followed by \<open>Set\<close> or \<open>SetError\<close>; \<open>Print\<close>,
  \<open>Panic\<close> and \<open>Fatal\<close> change the state through \<open>output\<close>.  No method of \<open>Log\<close>
  calls \<open>del\<close>.
\<close>

inductive api_reachable :: "world \<Rightarrow> bool" where
  initial: "nxt w = 0 \<Longrightarrow> \<forall>m. entries (metas w m) = None \<Longrightarrow> api_reachable w"
| by_newAdvanced: "api_reachable w \<Longrightarrow> api_reachable (snd (newAdvanced out flags calldepth w))"
| by_SetFlags: "api_reachable w \<Longrightarrow> api_reachable (Logger_SetFlags lg flags w)"
| by_Set: "api_reachable w \<Longrightarrow> api_reachable (snd (Log_Set a k v w))"
| by_SetError: "api_reachable w \<Longrightarrow> api_reachable (snd (Log_SetError a err w))"
| by_Copy:
    "api_reachable w \<Longrightarrow> enumerates ps (entries_of w (log_Meta (logs w r))) \<Longrightarrow>
       api_reachable (snd (Log_Copy ps (Some r) w))"
| by_output: "api_reachable w \<Longrightarrow> api_reachable (Log_output a s w)"

section \<open>Properties of the ordered metadata store\<close>

subsection \<open>The operations on the contents of a store\<close>

lemma entries_of_set:
  "entries_of (Meta_set m k v w) m = set_entry (entries_of w m) k v"
  by (simp add: Meta_set_def entries_of_def split: option.splits)

lemma entries_of_del:
  "entries_of (Meta_del m k w) m = (entries_of w m)(k := None)"
  by (simp add: Meta_del_def entries_of_def split: option.splits)

lemma entries_of_set_calls:
  "entries_of (set_calls m kvs w) m =
     foldl (\<lambda>es (k, v). set_entry es k v) (entries_of w m) kvs"
  by (induction kvs arbitrary: w) (auto simp: entries_of_set)

lemma set_entry_present:
  "es k = Some vi \<Longrightarrow>
     set_entry es k v = es(k \<mapsto> \<lparr>entry_value = v, entry_order = entry_order vi\<rparr>)"
  by (simp add: set_entry_def)

lemma set_entry_absent:
  "es k = None \<Longrightarrow>
     set_entry es k v = es(k \<mapsto> \<lparr>entry_value = v, entry_order = int (card (dom es))\<rparr>)"
  by (simp add: set_entry_def)

lemma entries_of_new_Meta: "entries_of (snd (new_Meta w)) (nxt w) = Map.empty"
  by (simp add: new_Meta_def entries_of_def)

lemma nxt_world0: "nxt world0 = 0"
  by (simp add: world0_def)

lemma store0_empty: "entries_of store0 0 = Map.empty"
  using entries_of_new_Meta [of world0] by (simp add: store0_def nxt_world0)

subsection \<open>Order numbers follow the order of the calls\<close>

lemma fold_set_entry_fresh:
  assumes "distinct (map fst kvs)"
  shows "dom (foldl (\<lambda>es (k, v). set_entry es k v) Map.empty kvs) = set (map fst kvs) \<and>
         (\<forall>i<length kvs.
            foldl (\<lambda>es (k, v). set_entry es k v) Map.empty kvs (fst (kvs ! i)) =
              Some \<lparr>entry_value = snd (kvs ! i), entry_order = int i\<rparr>)"
  using assms
proof (induction kvs rule: rev_induct)
  case Nil
  then show ?case by simp
next
  case (snoc kv kvs)
  obtain k v where kv: "kv = (k, v)" by (cases kv)
  let ?es = "foldl (\<lambda>es (k, v). set_entry es k v) Map.empty kvs"
  from snoc.prems have d: "distinct (map fst kvs)" and fresh: "k \<notin> set (map fst kvs)"
    by (simp_all add: kv)
  from snoc.IH [OF d] have dom: "dom ?es = set (map fst kvs)"
    and nth: "\<And>i. i < length kvs \<Longrightarrow>
      ?es (fst (kvs ! i)) = Some \<lparr>entry_value = snd (kvs ! i), entry_order = int i\<rparr>"
    by simp_all
  from dom fresh have none: "?es k = None" by (metis domIff)
  have card: "card (dom ?es) = length kvs"
    using dom d by (metis distinct_card length_map)
  have step: "foldl (\<lambda>es (k, v). set_entry es k v) Map.empty (kvs @ [kv]) =
      ?es(k \<mapsto> \<lparr>entry_value = v, entry_order = int (length kvs)\<rparr>)"
    using set_entry_absent [of ?es k v] none by (simp add: kv card)
  have "dom (?es(k \<mapsto> \<lparr>entry_value = v, entry_order = int (length kvs)\<rparr>)) =
      set (map fst (kvs @ [kv]))"
    using dom by (auto simp: kv)
  moreover have "(?es(k \<mapsto> \<lparr>entry_value = v, entry_order = int (length kvs)\<rparr>))
        (fst ((kvs @ [kv]) ! i)) =
      Some \<lparr>entry_value = snd ((kvs @ [kv]) ! i), entry_order = int i\<rparr>"
    if "i < length (kvs @ [kv])" for i
  proof (cases "i < length kvs")
    case True
    then have "fst (kvs ! i) \<in> set (map fst kvs)" by simp
    with fresh have "fst (kvs ! i) \<noteq> k" by metis
    with True show ?thesis by (simp add: nth_append nth)
  next
    case False
    with that have "i = length kvs" by simp
    then show ?thesis by (simp add: kv)
  qed
  ultimately show ?case unfolding step by blast
qed

text \<open>
  Claim C1.  Starting from an empty store (its map nil or empty), after \<open>set\<close>
  calls with pairwise distinct keys the entry of the \<open>i\<close>-th key holds the \<open>i\<close>-th
  value and the order number \<open>i\<close> (counted from 0).  In every state, \<open>set\<close> on a
  key that is present replaces the value of its entry, keeps the order number
  of the entry, and changes no other entry.
\<close>

theorem set_order_is_call_order:
  "(entries_of w m = Map.empty \<longrightarrow> distinct (map fst kvs) \<longrightarrow>
      (\<forall>i<length kvs.
         entries_of (set_calls m kvs w) m (fst (kvs ! i)) =
           Some \<lparr>entry_value = snd (kvs ! i), entry_order = int i\<rparr>)) \<and>
   (entries_of w m k = Some vi \<longrightarrow>
      entries_of (Meta_set m k v w) m =
        (entries_of w m)(k \<mapsto> \<lparr>entry_value = v, entry_order = entry_order vi\<rparr>))"
  using fold_set_entry_fresh [of kvs]
  by (simp add: entries_of_set_calls entries_of_set set_entry_present)

theorem set_order_is_call_order_witness:
  "entries_of (set_calls 0 [(''foo'', VString ''bar''), (''t'', VInt 7)] store0) 0 ''foo'' =
     Some \<lparr>entry_value = VString ''bar'', entry_order = 0\<rparr> \<and>
   entries_of (set_calls 0 [(''foo'', VString ''bar''), (''t'', VInt 7)] store0) 0 ''t'' =
     Some \<lparr>entry_value = VInt 7, entry_order = 1\<rparr> \<and>
   entries_of (Meta_set 0 ''foo'' (VString ''baz'')
       (set_calls 0 [(''foo'', VString ''bar''), (''t'', VInt 7)] store0)) 0 =
     (entries_of (set_calls 0 [(''foo'', VString ''bar''), (''t'', VInt 7)] store0) 0)
       (''foo'' \<mapsto> \<lparr>entry_value = VString ''baz'', entry_order = 0\<rparr>)"
proof -
  let ?kvs = "[(''foo'', VString ''bar''), (''t'', VInt 7)]"
  let ?w = "set_calls 0 ?kvs store0"
  have a: "\<forall>i<length ?kvs. entries_of ?w 0 (fst (?kvs ! i)) =
      Some \<lparr>entry_value = snd (?kvs ! i), entry_order = int i\<rparr>"
    using set_order_is_call_order [of store0 0 ?kvs] store0_empty by simp
  have foo: "entries_of ?w 0 ''foo'' = Some \<lparr>entry_value = VString ''bar'', entry_order = 0\<rparr>"
    using a [rule_format, of 0] by simp
  have t: "entries_of ?w 0 ''t'' = Some \<lparr>entry_value = VInt 7, entry_order = 1\<rparr>"
    using a [rule_format, of 1] by simp
  have b: "entries_of (Meta_set 0 ''foo'' (VString ''baz'') ?w) 0 =
      (entries_of ?w 0)(''foo'' \<mapsto> \<lparr>entry_value = VString ''baz'', entry_order = 0\<rparr>)"
    using set_order_is_call_order [of ?w 0 "[]" "''foo''"
        "\<lparr>entry_value = VString ''bar'', entry_order = 0\<rparr>" "VString ''baz''"] foo
    by simp
  from foo t b show ?thesis by blast
qed

subsection \<open>Formatting primitives\<close>

lemma app_Inr [simp]: "app s (Inr t) = Inr (s @ t)"
  by (simp add: app_def)

lemma app_Inl [simp]: "app s (Inl e) = Inl e"
  by (simp add: app_def)

lemma extra_Nil [simp]: "extra [] = Inr []"
  by (simp add: extra_def)

lemma Sprintf_key_value:
  "fmt_Sprintf ''%s=%+v'' [VString k, v] = Inr (k @ ''='' @ fmt_v v)"
  by (simp add: fmt_Sprintf_def)

lemma doPrintf_literal:
  "CHR ''%'' \<notin> set p \<Longrightarrow> doPrintf Lit (p @ f) a = app p (doPrintf Lit f a)"
proof (induction p)
  case Nil
  show ?case by (cases "doPrintf Lit f a") simp_all
next
  case (Cons c p)
  then have "c \<noteq> CHR ''%''" by auto
  with Cons show ?case by (cases "doPrintf Lit f a") simp_all
qed

lemma Sprintf_wrap:
  assumes "CHR ''%'' \<notin> set pre" "CHR ''%'' \<notin> set post"
  shows "fmt_Sprintf (pre @ ''%s'' @ post) [VString s] = Inr (pre @ s @ post)"
proof -
  have "doPrintf Lit post [] = Inr post"
    using doPrintf_literal [OF assms(2), of "[]" "[]"] by simp
  then have "doPrintf Lit (''%s'' @ post) [VString s] = Inr (s @ post)"
    by simp
  then show ?thesis
    using doPrintf_literal [OF assms(1), of "''%s'' @ post" "[VString s]"]
    by (simp add: fmt_Sprintf_def)
qed

subsection \<open>The loop of format\<close>

lemma length_placed [simp]: "length (placed ps pts) = length pts"
  by (induction ps arbitrary: pts) auto

lemma place_in_range:
  "list_all (\<lambda>p. 0 \<le> entry_order (snd p) \<and> entry_order (snd p) < int (length pts)) ps \<Longrightarrow>
     place ps pts = Inr (placed ps pts)"
proof (induction ps arbitrary: pts)
  case Nil
  show ?case by simp
next
  case (Cons p ps)
  obtain k vi where p: "p = (k, vi)" by (cases p)
  from Cons.prems have "list_all (\<lambda>q. 0 \<le> entry_order (snd q) \<and>
      entry_order (snd q) < int (length (pts[nat (entry_order vi) := key_value p]))) ps"
    by simp
  from Cons.IH [OF this] Cons.prems show ?case
    by (simp add: p Sprintf_key_value key_value_def)
qed

lemma placed_untouched:
  "\<forall>p\<in>set ps. 0 \<le> entry_order (snd p) \<and> entry_order (snd p) \<noteq> int i \<Longrightarrow>
     placed ps pts ! i = pts ! i"
proof (induction ps arbitrary: pts)
  case Nil
  show ?case by simp
next
  case (Cons p ps)
  then have "nat (entry_order (snd p)) \<noteq> i" by auto
  with Cons show ?case by simp
qed

lemma placed_nth:
  assumes "distinct (map (entry_order \<circ> snd) ps)"
    and "\<forall>p\<in>set ps. 0 \<le> entry_order (snd p)"
    and "p \<in> set ps" and "nat (entry_order (snd p)) < length pts"
  shows "placed ps pts ! nat (entry_order (snd p)) = key_value p"
  using assms
proof (induction ps arbitrary: pts)
  case Nil
  then show ?case by simp
next
  case (Cons q ps)
  show ?case
  proof (cases "p = q")
    case True
    from Cons.prems(1) have "entry_order (snd q) \<notin> (entry_order \<circ> snd) ` set ps"
      by simp
    then have "\<forall>r\<in>set ps. entry_order (snd r) \<noteq> entry_order (snd q)"
      by (metis comp_apply imageI)
    with Cons.prems(2) True
    have "\<forall>r\<in>set ps. 0 \<le> entry_order (snd r) \<and>
        entry_order (snd r) \<noteq> int (nat (entry_order (snd p)))"
      by auto
    from placed_untouched [OF this] Cons.prems(4) True show ?thesis by simp
  next
    case False
    with Cons.prems have "p \<in> set ps" by simp
    with Cons.IH [of "pts[nat (entry_order (snd q)) := key_value q]"] Cons.prems
    show ?thesis by simp
  qed
qed

lemma dense_orders:
  assumes "dense ps"
  shows "map (entry_order \<circ> snd) (sort_key (entry_order \<circ> snd) ps) = map int [0..<length ps]"
proof -
  let ?f = "entry_order \<circ> snd"
  let ?ys = "map ?f (sort_key ?f ps)"
  from assms have d: "distinct (map ?f ps)"
    and r: "\<forall>p\<in>set ps. 0 \<le> ?f p \<and> ?f p < int (length ps)"
    by (simp_all add: dense_def list_all_iff)
  have dy: "distinct ?ys"
    using d by (simp add: distinct_map)
  have "set ?ys \<subseteq> int ` {0..<length ps}"
  proof
    fix y assume "y \<in> set ?ys"
    then obtain p where "p \<in> set ps" "y = ?f p" by auto
    with r have "0 \<le> y" "y < int (length ps)" by auto
    then have "nat y \<in> {0..<length ps}" "y = int (nat y)" by auto
    then show "y \<in> int ` {0..<length ps}" by blast
  qed
  moreover have "card (set ?ys) = card (int ` {0..<length ps})"
    using distinct_card [OF dy] by (simp add: card_image)
  ultimately have "set ?ys = int ` {0..<length ps}"
    by (simp add: card_subset_eq)
  then have "set ?ys = set (map int [0..<length ps])" by simp
  moreover have "sorted ?ys" by (rule sorted_sort_key)
  moreover have "sorted (map int [0..<length ps])"
    by (simp add: sorted_map sorted_wrt_iff_nth_less)
  moreover have "distinct (map int [0..<length ps])"
    by (simp add: distinct_map)
  ultimately show ?thesis
    using dy sorted_distinct_set_unique by blast
qed

lemma placed_dense:
  assumes "dense ps"
  shows "placed ps (replicate (length ps) []) =
         map key_value (sort_key (entry_order \<circ> snd) ps)"
proof (rule nth_equalityI)
  show "length (placed ps (replicate (length ps) [])) =
        length (map key_value (sort_key (entry_order \<circ> snd) ps))"
    by simp
next
  let ?f = "entry_order \<circ> snd"
  fix i assume "i < length (placed ps (replicate (length ps) []))"
  then have i: "i < length ps" by simp
  let ?p = "sort_key ?f ps ! i"
  from i have mem: "?p \<in> set ps"
    by (metis length_sort nth_mem set_sort)
  have "map ?f (sort_key ?f ps) ! i = map int [0..<length ps] ! i"
    by (simp add: dense_orders [OF assms])
  with i have ord: "entry_order (snd ?p) = int i" by simp
  from assms have "distinct (map ?f ps)" "\<forall>p\<in>set ps. 0 \<le> entry_order (snd p)"
    by (simp_all add: dense_def list_all_iff)
  from placed_nth [OF this mem, of "replicate (length ps) []"] i ord
  show "placed ps (replicate (length ps) []) ! i =
        map key_value (sort_key ?f ps) ! i"
    by simp
qed

lemma enumerates_card: "enumerates ps es \<Longrightarrow> card (dom es) = length ps"
  by (auto simp: enumerates_def dom_map_of_conv_image_fst distinct_card
      simp flip: set_map)

lemma enumerates_empty: "enumerates ps es \<Longrightarrow> (ps = []) = (es = Map.empty)"
  by (cases ps) (auto simp: enumerates_def)

lemma format_entries_dense:
  assumes "enumerates ps es" "dense ps"
  shows "format_entries ps es delim format =
     (if es = Map.empty then Inr []
      else if format = []
        then Inr (Join (map key_value (sort_key (entry_order \<circ> snd) ps)) delim)
        else fmt_Sprintf format
               [VString (Join (map key_value (sort_key (entry_order \<circ> snd) ps)) delim)])"
proof -
  have n: "card (dom es) = length ps" by (rule enumerates_card [OF assms(1)])
  from assms(2) have "list_all (\<lambda>p. 0 \<le> entry_order (snd p) \<and>
      entry_order (snd p) < int (length (replicate (length ps) ([]::string)))) ps"
    by (simp add: dense_def)
  from place_in_range [OF this] placed_dense [OF assms(2)]
  have "place ps (replicate (length ps) []) =
      Inr (map key_value (sort_key (entry_order \<circ> snd) ps))"
    by simp
  moreover have "(length ps = 0) = (es = Map.empty)"
    using enumerates_empty [OF assms(1)] by simp
  ultimately show ?thesis
    by (simp add: format_entries_def n)
qed

subsection \<open>The example stores\<close>

lemma foo_t_store_entries:
  "entries_of foo_t_store 0 =
     [''foo'' \<mapsto> \<lparr>entry_value = VString ''bar'', entry_order = 0\<rparr>,
      ''t'' \<mapsto> \<lparr>entry_value = VInt 7, entry_order = 1\<rparr>]"
  by (simp add: foo_t_store_def entries_of_set store0_empty set_entry_def)

lemma gap_store_entries:
  "entries_of gap_store 0 = [''b'' \<mapsto> \<lparr>entry_value = VInt 2, entry_order = 1\<rparr>]"
  by (auto simp: gap_store_def entries_of_del entries_of_set store0_empty set_entry_def)

lemma collide_store_entries:
  "entries_of collide_store 0 =
     [''b'' \<mapsto> \<lparr>entry_value = VInt 2, entry_order = 1\<rparr>,
      ''c'' \<mapsto> \<lparr>entry_value = VInt 3, entry_order = 1\<rparr>]"
  by (simp add: collide_store_def entries_of_set gap_store_entries set_entry_def)

lemma format_entries_empty: "format_entries ps Map.empty delim format = Inr []"
  by (simp add: format_entries_def)

subsection \<open>What format returns\<close>

text \<open>
  On an empty store \<open>format\<close> returns the empty string, and the wrapper is not
  applied.  On a store that is not empty and whose order numbers are
  \<open>0, ..., n - 1\<close>, each once, for every order \<open>ps\<close> in which \<open>range\<close> yields the
  entries: \<open>format\<close> renders each entry as \<open>key=value\<close>, sorts the renderings by
  order number and joins them with the delimiter; it returns the joined string
  when the wrapper is empty, and otherwise what \<open>fmt.Sprintf\<close> makes of the
  wrapper and the joined string, which for a wrapper \<open>pre%spost\<close> with no other
  \<open>%\<close> is \<open>pre\<close>, the joined string, \<open>post\<close>.
\<close>

theorem format_of_dense_store:
  "(entries_of w m = Map.empty \<longrightarrow> Meta_format ps m delim format w = Inr []) \<and>
   (enumerates ps (entries_of w m) \<longrightarrow> dense ps \<longrightarrow> ps \<noteq> [] \<longrightarrow>
      Meta_format ps m delim [] w =
        Inr (Join (map key_value (sort_key (entry_order \<circ> snd) ps)) delim) \<and>
      (format \<noteq> [] \<longrightarrow>
         Meta_format ps m delim format w =
           fmt_Sprintf format
             [VString (Join (map key_value (sort_key (entry_order \<circ> snd) ps)) delim)]) \<and>
      (CHR ''%'' \<notin> set pre \<longrightarrow> CHR ''%'' \<notin> set post \<longrightarrow>
         Meta_format ps m delim (pre @ ''%s'' @ post) w =
           Inr (pre @ Join (map key_value (sort_key (entry_order \<circ> snd) ps)) delim @ post)))"
proof -
  have "Meta_format ps m delim format w = Inr []" if "entries_of w m = Map.empty"
    using that by (simp add: Meta_format_def format_entries_empty)
  moreover have "Meta_format ps m delim fm w =
      (if fm = [] then Inr (Join (map key_value (sort_key (entry_order \<circ> snd) ps)) delim)
       else fmt_Sprintf fm
          [VString (Join (map key_value (sort_key (entry_order \<circ> snd) ps)) delim)])"
    if "enumerates ps (entries_of w m)" "dense ps" "ps \<noteq> []" for fm
    using format_entries_dense [OF that(1,2), of delim fm] enumerates_empty [OF that(1)] that(3)
    by (simp add: Meta_format_def)
  moreover have "fmt_Sprintf (pre @ ''%s'' @ post) [VString s] = Inr (pre @ s @ post)"
    if "CHR ''%'' \<notin> set pre" "CHR ''%'' \<notin> set post" for s
    using that by (rule Sprintf_wrap)
  ultimately show ?thesis
    by simp
qed

text \<open>The example of the package's test, and the empty store.\<close>

theorem format_of_dense_store_example:
  "Meta_format
     [(''t'', \<lparr>entry_value = VInt 7, entry_order = 1\<rparr>),
      (''foo'', \<lparr>entry_value = VString ''bar'', entry_order = 0\<rparr>)]
     0 '', '' ''*%s*'' foo_t_store = Inr ''*foo=bar, t=7*'' \<and>
   Meta_format [] 0 '', '' ''*%s*'' store0 = Inr []"
proof -
  let ?ps = "[(''t'', \<lparr>entry_value = VInt 7, entry_order = 1\<rparr>),
      (''foo'', \<lparr>entry_value = VString ''bar'', entry_order = 0\<rparr>)]"
  have e: "enumerates ?ps (entries_of foo_t_store 0)"
    by (auto simp: enumerates_def foo_t_store_entries)
  have d: "dense ?ps"
    by (simp add: dense_def)
  have "Meta_format ?ps 0 '', '' (''*'' @ ''%s'' @ ''*'') foo_t_store =
      Inr (''*'' @ Join (map key_value (sort_key (entry_order \<circ> snd) ?ps)) '', '' @ ''*'')"
    using format_of_dense_store [of foo_t_store 0 ?ps "'', ''" "[]" "''*''" "''*''"] e d
    by simp
  moreover have "Meta_format [] 0 '', '' ''*%s*'' store0 = Inr []"
    using format_of_dense_store [of store0 0 "[]" "'', ''" "''*%s*''" "[]" "[]"] store0_empty
    by simp
  ultimately show ?thesis
    by (simp add: key_value_def itoa_def itoa_nat.simps)
qed

lemma t_only_store_entries:
  "entries_of t_only_store 0 = [''t'' \<mapsto> \<lparr>entry_value = VInt 7, entry_order = 1\<rparr>]"
  by (auto simp: t_only_store_def entries_of_del foo_t_store_entries)

text \<open>
  Claim C2 describes \<open>format\<close> on every store: the empty string on the empty
  store, and otherwise the renderings \<open>key=value\<close>, sorted by order number, joined
  and wrapped.  By \<open>format_of_dense_store\<close> the code does so on the empty store and
  on every store whose order numbers are \<open>0, ..., n - 1\<close>, each once, and on the
  example of the claim.  It does not on the store of that example once \<open>foo\<close> is
  deleted: the map is \<open>{t: (7, order 1)}\<close>, the slice has length 1, and
  \<open>format(", ", "*%s*")\<close> ends in the run-time panic ``index out of range [1]
  with length 1'' where the claim gives \<open>*t=7*\<close>.
\<close>

theorem format_after_delete_not_rendered:
  "enumerates [(''t'', \<lparr>entry_value = VInt 7, entry_order = 1\<rparr>)] (entries_of t_only_store 0) \<and>
   Meta_format [(''t'', \<lparr>entry_value = VInt 7, entry_order = 1\<rparr>)] 0 '', '' ''*%s*''
     t_only_store = Inl (IndexOutOfRange 1 1) \<and>
   Meta_format [(''t'', \<lparr>entry_value = VInt 7, entry_order = 1\<rparr>)] 0 '', '' ''*%s*''
     t_only_store \<noteq> Inr ''*t=7*''"
  by (simp add: enumerates_def t_only_store_entries Meta_format_def format_entries_def
      Sprintf_key_value)

subsection \<open>Order numbers with gaps\<close>

lemma place_out_of_range:
  "p \<in> set ps \<Longrightarrow> \<not> (0 \<le> entry_order (snd p) \<and> entry_order (snd p) < int (length pts)) \<Longrightarrow>
     \<exists>i. place ps pts = Inl (IndexOutOfRange i (length pts))"
proof (induction ps arbitrary: pts)
  case Nil
  then show ?case by simp
next
  case (Cons q ps)
  obtain k vi where q: "q = (k, vi)" by (cases q)
  show ?case
  proof (cases "0 \<le> entry_order vi \<and> entry_order vi < int (length pts)")
    case False
    then show ?thesis by (auto simp: q Sprintf_key_value)
  next
    case True
    with Cons.prems q have "p \<in> set ps" by auto
    from Cons.IH [OF this, of "pts[nat (entry_order vi) := key_value q]"] Cons.prems(2) True
    show ?thesis by (simp add: q Sprintf_key_value key_value_def)
  qed
qed

lemma format_faults_on_gap:
  assumes "enumerates ps (entries_of w m)" and "p \<in> set ps"
    and "int (length ps) \<le> entry_order (snd p)"
  shows "\<exists>i. Meta_format ps m delim format w = Inl (IndexOutOfRange i (length ps))"
proof -
  have n: "card (dom (entries_of w m)) = length ps"
    by (rule enumerates_card [OF assms(1)])
  from assms(2) have "ps \<noteq> []" by auto
  moreover from place_out_of_range [OF assms(2), of "replicate (length ps) []"] assms(3)
  obtain i where "place ps (replicate (length ps) []) = Inl (IndexOutOfRange i (length ps))"
    by auto
  ultimately show ?thesis
    by (simp add: Meta_format_def format_entries_def n)
qed

text \<open>
  Claim C3 says that \<open>format\<close> completes on every state reached by \<open>set\<close> and
  \<open>del\<close>, also when an order number is not below the number of entries.  The
  code does not: by \<open>format_faults_on_gap\<close> it panics on every such store.  Here the
  code is run on the state after \<open>set("a", 1)\<close>, \<open>set("b", 2)\<close>, \<open>del("a")\<close>, whose map
  is \<open>{b: (2, order 1)}\<close>: \<open>format(" ", "[%s]")\<close> ends in the run-time panic
  ``index out of range [1] with length 1''.
\<close>

theorem format_after_delete_faults:
  "entries_of gap_store 0 = [''b'' \<mapsto> \<lparr>entry_value = VInt 2, entry_order = 1\<rparr>] \<and>
   Meta_format [(''b'', \<lparr>entry_value = VInt 2, entry_order = 1\<rparr>)] 0 '' '' ''[%s]'' gap_store =
     Inl (IndexOutOfRange 1 1)"
  by (simp add: gap_store_entries Meta_format_def format_entries_def Sprintf_key_value)

subsection \<open>The order of iteration\<close>

lemma enumerates_same_set:
  "enumerates ps es \<Longrightarrow> enumerates qs es \<Longrightarrow> set ps = set qs"
  using map_of_inject_set [of ps qs] by (simp add: enumerates_def)

lemma enumerates_distinct: "enumerates ps es \<Longrightarrow> distinct ps"
  by (auto simp: enumerates_def distinct_map)

lemma dense_transfer:
  assumes "enumerates ps es" "enumerates qs es" "dense ps"
  shows "dense qs"
proof -
  have s: "set ps = set qs" by (rule enumerates_same_set [OF assms(1,2)])
  have l: "length ps = length qs"
    using enumerates_card [OF assms(1)] enumerates_card [OF assms(2)] by simp
  from assms(3) have "inj_on (entry_order \<circ> snd) (set ps)"
    by (simp add: dense_def distinct_map)
  with s enumerates_distinct [OF assms(2)]
  have "distinct (map (entry_order \<circ> snd) qs)"
    by (simp add: distinct_map)
  with assms(3) s l show ?thesis
    by (simp add: dense_def list_all_iff)
qed

lemma sort_key_same:
  assumes "enumerates ps es" "enumerates qs es" "dense ps"
  shows "sort_key (entry_order \<circ> snd) ps = sort_key (entry_order \<circ> snd) qs"
proof (rule map_sorted_distinct_set_unique [where f = "entry_order \<circ> snd"])
  have s: "set ps = set qs" by (rule enumerates_same_set [OF assms(1,2)])
  have dq: "dense qs" by (rule dense_transfer [OF assms])
  from assms(3) have ip: "inj_on (entry_order \<circ> snd) (set ps)"
    by (simp add: dense_def distinct_map)
  with s show "inj_on (entry_order \<circ> snd)
      (set (sort_key (entry_order \<circ> snd) ps) \<union> set (sort_key (entry_order \<circ> snd) qs))"
    by simp
  show "sorted (map (entry_order \<circ> snd) (sort_key (entry_order \<circ> snd) ps))"
    by (rule sorted_sort_key)
  show "sorted (map (entry_order \<circ> snd) (sort_key (entry_order \<circ> snd) qs))"
    by (rule sorted_sort_key)
  from assms(3) show "distinct (map (entry_order \<circ> snd) (sort_key (entry_order \<circ> snd) ps))"
    by (simp add: dense_def distinct_map)
  from dq show "distinct (map (entry_order \<circ> snd) (sort_key (entry_order \<circ> snd) qs))"
    by (simp add: dense_def distinct_map)
  from s show "set (sort_key (entry_order \<circ> snd) ps) = set (sort_key (entry_order \<circ> snd) qs)"
    by simp
qed

text \<open>
  For a store whose order numbers are \<open>0, ..., n - 1\<close>, each once, \<open>format\<close>
  returns the same result for any two orders \<open>ps\<close> and \<open>qs\<close> in which \<open>range\<close> may
  yield the entries of the map.
\<close>

theorem format_deterministic_when_dense:
  "enumerates ps (entries_of w m) \<Longrightarrow> enumerates qs (entries_of w m) \<Longrightarrow> dense ps \<Longrightarrow>
     Meta_format ps m delim format w = Meta_format qs m delim format w"
  using format_entries_dense [of ps "entries_of w m" delim format]
    format_entries_dense [of qs "entries_of w m" delim format]
    dense_transfer [of ps "entries_of w m" qs] sort_key_same [of ps "entries_of w m" qs]
  by (simp add: Meta_format_def)

theorem format_deterministic_when_dense_example:
  "Meta_format
     [(''t'', \<lparr>entry_value = VInt 7, entry_order = 1\<rparr>),
      (''foo'', \<lparr>entry_value = VString ''bar'', entry_order = 0\<rparr>)]
     0 '' '' ''[%s]'' foo_t_store =
   Meta_format
     [(''foo'', \<lparr>entry_value = VString ''bar'', entry_order = 0\<rparr>),
      (''t'', \<lparr>entry_value = VInt 7, entry_order = 1\<rparr>)]
     0 '' '' ''[%s]'' foo_t_store"
proof -
  let ?ps = "[(''t'', \<lparr>entry_value = VInt 7, entry_order = 1\<rparr>),
      (''foo'', \<lparr>entry_value = VString ''bar'', entry_order = 0\<rparr>)]"
  let ?qs = "[(''foo'', \<lparr>entry_value = VString ''bar'', entry_order = 0\<rparr>),
      (''t'', \<lparr>entry_value = VInt 7, entry_order = 1\<rparr>)]"
  have "enumerates ?ps (entries_of foo_t_store 0)"
    by (auto simp: enumerates_def foo_t_store_entries)
  moreover have "enumerates ?qs (entries_of foo_t_store 0)"
    by (auto simp: enumerates_def foo_t_store_entries)
  moreover have "dense ?ps"
    by (simp add: dense_def)
  ultimately show ?thesis
    by (rule format_deterministic_when_dense)
qed

text \<open>
  Claim C10 says that \<open>format\<close> returns the same string for the same map,
  whatever the order in which \<open>range\<close> yields the entries.  By
  \<open>format_deterministic_when_dense\<close> the code does so when no two entries share an
  order number and none is out of range.  It does not after \<open>set("a", 1)\<close>,
  \<open>set("b", 2)\<close>, \<open>del("a")\<close>, \<open>set("c", 3)\<close>: \<open>set\<close> gives \<open>c\<close> the order
  \<open>len(m.entries) = 1\<close>, which \<open>b\<close> has already; both renderings go to slot 1, and
  the entry that \<open>range\<close> yields last is the one \<open>format\<close> returns.
\<close>

theorem format_depends_on_iteration_order:
  "enumerates
     [(''b'', \<lparr>entry_value = VInt 2, entry_order = 1\<rparr>),
      (''c'', \<lparr>entry_value = VInt 3, entry_order = 1\<rparr>)] (entries_of collide_store 0) \<and>
   enumerates
     [(''c'', \<lparr>entry_value = VInt 3, entry_order = 1\<rparr>),
      (''b'', \<lparr>entry_value = VInt 2, entry_order = 1\<rparr>)] (entries_of collide_store 0) \<and>
   Meta_format
     [(''b'', \<lparr>entry_value = VInt 2, entry_order = 1\<rparr>),
      (''c'', \<lparr>entry_value = VInt 3, entry_order = 1\<rparr>)] 0 '' '' ''[%s]'' collide_store =
     Inr ''[ c=3]'' \<and>
   Meta_format
     [(''c'', \<lparr>entry_value = VInt 3, entry_order = 1\<rparr>),
      (''b'', \<lparr>entry_value = VInt 2, entry_order = 1\<rparr>)] 0 '' '' ''[%s]'' collide_store =
     Inr ''[ b=2]''"
proof -
  have "enumerates
     [(''b'', \<lparr>entry_value = VInt 2, entry_order = 1\<rparr>),
      (''c'', \<lparr>entry_value = VInt 3, entry_order = 1\<rparr>)] (entries_of collide_store 0)"
    by (auto simp: enumerates_def collide_store_entries)
  moreover have "enumerates
     [(''c'', \<lparr>entry_value = VInt 3, entry_order = 1\<rparr>),
      (''b'', \<lparr>entry_value = VInt 2, entry_order = 1\<rparr>)] (entries_of collide_store 0)"
    by (auto simp: enumerates_def collide_store_entries)
  moreover have "card (dom (entries_of collide_store 0)) = 2"
    by (simp add: collide_store_entries)
  ultimately show ?thesis
    by (simp add: Meta_format_def format_entries_def Sprintf_key_value key_value_def
        fmt_Sprintf_def itoa_def itoa_nat.simps numeral_2_eq_2)
qed

subsection \<open>Stores built by set alone\<close>

text \<open>
  \<open>set\<close> keeps the order numbers \<open>0, ..., n - 1\<close>, each once; so every store built
  from an empty one by \<open>set\<close> calls has them.
\<close>

lemma map_of_update_values:
  "map_of (map (\<lambda>p. if fst p = k then (k, h (snd p)) else p) ps) =
     (\<lambda>k'. if k' = k then map_option h (map_of ps k) else map_of ps k')"
  by (induction ps) (auto simp: fun_eq_iff)

lemma set_entry_dense:
  assumes "enumerates ps es" "dense ps"
  shows "\<exists>qs. enumerates qs (set_entry es k v) \<and> dense qs"
proof (cases "es k")
  case None
  let ?e = "\<lparr>entry_value = v, entry_order = int (length ps)\<rparr>"
  let ?qs = "ps @ [(k, ?e)]"
  from assms(1) None have fresh: "k \<notin> fst ` set ps"
    by (auto simp: enumerates_def map_of_eq_None_iff)
  have se: "set_entry es k v = es(k \<mapsto> ?e)"
    using None enumerates_card [OF assms(1)] by (simp add: set_entry_def)
  have "map_of ?qs = es(k \<mapsto> ?e)"
    using assms(1) None by (auto simp: enumerates_def fun_eq_iff map_add_def split: option.splits)
  with assms(1) fresh have "enumerates ?qs (set_entry es k v)"
    by (simp add: enumerates_def se)
  moreover from assms(2) have "dense ?qs"
    by (auto simp: dense_def list_all_iff)
  ultimately show ?thesis by blast
next
  case (Some vi)
  let ?h = "\<lambda>e. \<lparr>entry_value = v, entry_order = entry_order e\<rparr>"
  let ?g = "\<lambda>p. if fst p = k then (k, ?h (snd p)) else p"
  let ?qs = "map ?g ps"
  have se: "set_entry es k v = es(k \<mapsto> ?h vi)"
    using Some by (simp add: set_entry_def)
  have keys: "map fst ?qs = map fst ps" by (induction ps) auto
  have orders: "map (entry_order \<circ> snd) ?qs = map (entry_order \<circ> snd) ps"
    by (induction ps) auto
  have "map_of ps = es" using assms(1) by (simp add: enumerates_def)
  then have "map_of ?qs = es(k \<mapsto> ?h vi)"
    unfolding map_of_update_values [of k ?h ps] using Some by (auto simp: fun_eq_iff)
  moreover from assms(1) have "distinct (map fst ps)" by (simp add: enumerates_def)
  then have "distinct (map fst ?qs)" by (subst keys)
  ultimately have "enumerates ?qs (set_entry es k v)"
    unfolding enumerates_def se by blast
  moreover have "dense ?qs"
  proof -
    from assms(2) have "distinct (map (entry_order \<circ> snd) ps)" by (simp add: dense_def)
    then have "distinct (map (entry_order \<circ> snd) ?qs)" by (subst orders)
    moreover have "list_all (\<lambda>p. 0 \<le> entry_order (snd p) \<and>
        entry_order (snd p) < int (length ?qs)) ?qs"
      using assms(2) by (auto simp: dense_def list_all_iff)
    ultimately show ?thesis
      unfolding dense_def by blast
  qed
  ultimately show ?thesis by blast
qed

lemma fold_set_entry_dense:
  "enumerates ps es \<Longrightarrow> dense ps \<Longrightarrow>
     \<exists>qs. enumerates qs (foldl (\<lambda>es (k, v). set_entry es k v) es kvs) \<and> dense qs"
proof (induction kvs arbitrary: ps es)
  case Nil
  then show ?case by auto
next
  case (Cons kv kvs)
  obtain k v where kv: "kv = (k, v)" by (cases kv)
  from set_entry_dense [OF Cons.prems, of k v]
  obtain qs where "enumerates qs (set_entry es k v)" "dense qs" by blast
  from Cons.IH [OF this] show ?case by (simp add: kv)
qed

lemma set_calls_dense:
  assumes "entries_of w m = Map.empty"
  shows "\<exists>ps. enumerates ps (entries_of (set_calls m kvs w) m) \<and> dense ps"
proof -
  have "enumerates [] (entries_of w m)" "dense []"
    using assms by (simp_all add: enumerates_def dense_def)
  from fold_set_entry_dense [OF this, of kvs] show ?thesis
    by (simp add: entries_of_set_calls)
qed

section \<open>Properties of copy\<close>

lemma separate_sym: "separate w m n \<Longrightarrow> separate w n m"
  by (auto simp: separate_def split: option.splits)

lemma copy_loop_map_of:
  "distinct (map fst ps) \<Longrightarrow>
     copy_loop ps es k = (case map_of ps k of None \<Rightarrow> es k | Some v \<Rightarrow> Some v)"
proof (induction ps arbitrary: es)
  case Nil
  show ?case by simp
next
  case (Cons p ps)
  obtain k0 v0 where p: "p = (k0, v0)" by (cases p)
  from Cons.prems have "map_of ps k0 = None"
    by (simp add: p map_of_eq_None_iff)
  with Cons show ?case by (auto simp: p split: option.splits)
qed

lemma copy_loop_enumerates: "enumerates ps es \<Longrightarrow> copy_loop ps Map.empty = es"
  by (rule ext) (auto simp: enumerates_def copy_loop_map_of split: option.splits)

lemma copy_entries:
  "enumerates ps (entries_of w m) \<Longrightarrow>
     entries_of (snd (Meta_copy ps m w)) (fst (Meta_copy ps m w)) = entries_of w m"
  by (auto simp: Meta_copy_def entries_of_def copy_loop_enumerates split: option.splits)

lemma copy_original:
  "allocated w m \<Longrightarrow> entries_of (snd (Meta_copy ps m w)) m = entries_of w m"
  by (auto simp: Meta_copy_def entries_of_def allocated_def split: option.splits)

lemma copy_separate:
  "allocated w m \<Longrightarrow> separate (snd (Meta_copy ps m w)) m (fst (Meta_copy ps m w))"
  by (auto simp: Meta_copy_def separate_def allocated_def split: option.splits)

lemma set_separate:
  "separate w m n \<Longrightarrow>
     separate (Meta_set n k v w) m n \<and> entries_of (Meta_set n k v w) m = entries_of w m"
  by (auto simp: Meta_set_def separate_def allocated_def entries_of_def split: option.splits)

lemma del_separate:
  "separate w m n \<Longrightarrow>
     separate (Meta_del n k w) m n \<and> entries_of (Meta_del n k w) m = entries_of w m"
  by (auto simp: Meta_del_def separate_def allocated_def entries_of_def split: option.splits)

lemma apply_op_separate:
  "separate w m n \<Longrightarrow>
     separate (apply_op n op w) m n \<and> entries_of (apply_op n op w) m = entries_of w m"
  by (cases op) (simp_all add: set_separate del_separate)

lemma run_ops_separate:
  "separate w m n \<Longrightarrow>
     separate (run_ops n ops w) m n \<and> entries_of (run_ops n ops w) m = entries_of w m"
proof (induction ops arbitrary: w)
  case Nil
  then show ?case by simp
next
  case (Cons op ops)
  from apply_op_separate [OF Cons.prems, of op]
  have s: "separate (apply_op n op w) m n"
    and e: "entries_of (apply_op n op w) m = entries_of w m"
    by simp_all
  from Cons.IH [OF s] e show ?case by simp
qed

text \<open>
  Claim C4.  Let \<open>m\<close> be an allocated store and \<open>n\<close> the store that \<open>m.copy()\<close>
  returns, in the state \<open>w1\<close>.  Then \<open>n\<close> holds the entries of \<open>m\<close> (keys, values
  and order numbers), \<open>m\<close> still holds them, and \<open>n\<close> is another object.  After any
  sequence of \<open>set\<close> and \<open>del\<close> calls on the copy, \<open>get\<close> and \<open>format\<close> on the
  original return what they returned before the copy; after any such sequence
  on the original, \<open>get\<close> and \<open>format\<close> on the copy return what they returned
  right after the copy.
\<close>

theorem copy_is_independent:
  assumes "allocated w m" and "enumerates ps (entries_of w m)"
    and "Meta_copy ps m w = (n, w1)"
  shows "entries_of w1 n = entries_of w m \<and> entries_of w1 m = entries_of w m \<and> n \<noteq> m \<and>
         Meta_get m k (run_ops n ops w1) = Meta_get m k w \<and>
         Meta_format qs m delim format (run_ops n ops w1) = Meta_format qs m delim format w \<and>
         Meta_get n k (run_ops m ops w1) = Meta_get n k w1 \<and>
         Meta_format qs n delim format (run_ops m ops w1) = Meta_format qs n delim format w1"
proof -
  from assms(3) have n: "n = fst (Meta_copy ps m w)" and w1: "w1 = snd (Meta_copy ps m w)"
    by simp_all
  have sep: "separate w1 m n"
    unfolding n w1 by (rule copy_separate [OF assms(1)])
  have same: "entries_of w1 n = entries_of w m"
    unfolding n w1 by (rule copy_entries [OF assms(2)])
  have orig: "entries_of w1 m = entries_of w m"
    unfolding w1 by (rule copy_original [OF assms(1)])
  from run_ops_separate [OF sep, of ops]
  have a: "entries_of (run_ops n ops w1) m = entries_of w1 m" by simp
  from run_ops_separate [OF separate_sym [OF sep], of ops]
  have b: "entries_of (run_ops m ops w1) n = entries_of w1 n" by simp
  from sep have "n \<noteq> m" by (auto simp: separate_def)
  with same orig a b show ?thesis
    by (simp add: Meta_get_def Meta_format_def)
qed

lemma baz_store_entries:
  "entries_of baz_store 0 =
     [''foo'' \<mapsto> \<lparr>entry_value = VString ''baz'', entry_order = 0\<rparr>,
      ''t'' \<mapsto> \<lparr>entry_value = VInt 7, entry_order = 1\<rparr>]"
  by (auto simp: baz_store_def entries_of_set foo_t_store_entries set_entry_def)

lemma baz_store_allocated: "allocated baz_store 0"
  by (simp add: allocated_def baz_store_def foo_t_store_def store0_def new_Meta_def
      world0_def Meta_set_def)

theorem copy_is_independent_witness:
  "Meta_get 0 ''foo''
     (run_ops
        (fst (Meta_copy
           [(''foo'', \<lparr>entry_value = VString ''baz'', entry_order = 0\<rparr>),
            (''t'', \<lparr>entry_value = VInt 7, entry_order = 1\<rparr>)] 0 baz_store))
        [SetOp ''foo'' (VString ''bar'')]
        (snd (Meta_copy
           [(''foo'', \<lparr>entry_value = VString ''baz'', entry_order = 0\<rparr>),
            (''t'', \<lparr>entry_value = VInt 7, entry_order = 1\<rparr>)] 0 baz_store))) =
     VString ''baz'' \<and>
   Meta_get
     (fst (Meta_copy
        [(''foo'', \<lparr>entry_value = VString ''baz'', entry_order = 0\<rparr>),
         (''t'', \<lparr>entry_value = VInt 7, entry_order = 1\<rparr>)] 0 baz_store))
     ''foo''
     (run_ops 0 [DelOp ''foo'']
        (snd (Meta_copy
           [(''foo'', \<lparr>entry_value = VString ''baz'', entry_order = 0\<rparr>),
            (''t'', \<lparr>entry_value = VInt 7, entry_order = 1\<rparr>)] 0 baz_store))) =
     VString ''baz''"
proof -
  let ?ps = "[(''foo'', \<lparr>entry_value = VString ''baz'', entry_order = 0\<rparr>),
            (''t'', \<lparr>entry_value = VInt 7, entry_order = 1\<rparr>)]"
  let ?n = "fst (Meta_copy ?ps 0 baz_store)"
  let ?w1 = "snd (Meta_copy ?ps 0 baz_store)"
  have e: "enumerates ?ps (entries_of baz_store 0)"
    by (auto simp: enumerates_def baz_store_entries)
  have c: "Meta_copy ?ps 0 baz_store = (?n, ?w1)" by simp
  note t1 = copy_is_independent [OF baz_store_allocated e c,
      of "''foo''" "[SetOp ''foo'' (VString ''bar'')]" "[]" "[]" "[]"]
  note t2 = copy_is_independent [OF baz_store_allocated e c,
      of "''foo''" "[DelOp ''foo'']" "[]" "[]" "[]"]
  have "Meta_get 0 ''foo'' baz_store = VString ''baz''"
    by (simp add: Meta_get_def baz_store_entries)
  moreover have "Meta_get ?n ''foo'' ?w1 = VString ''baz''"
    using t1 by (simp add: Meta_get_def baz_store_entries)
  ultimately show ?thesis
    using t1 t2 by simp
qed

section \<open>Properties of the logger\<close>

subsection \<open>The formatting primitives under a prefix\<close>

lemma doPrint_argNum: "doPrint (Suc n) b a = doPrint (Suc k) b a"
proof (induction a arbitrary: n k b)
  case Nil
  show ?case by simp
next
  case (Cons x a)
  from Cons [of "Suc n" "isString x" "Suc k"] show ?case by simp
qed

lemma doPrint_after_string: "doPrint (Suc n) True a = doPrint 0 False a"
proof (cases a)
  case Nil
  then show ?thesis by simp
next
  case (Cons x xs)
  with doPrint_argNum [of "Suc n" "isString x" xs 0] show ?thesis by simp
qed

lemma Sprint_prefix:
  "fmt_Sprint ([VString p, VString '' ''] @ a) = p @ '' '' @ fmt_Sprint a"
  using doPrint_after_string [of "Suc 0" a] by (simp add: fmt_Sprint_def)

lemma Sprintf_literal_prefix:
  assumes "CHR ''%'' \<notin> set p"
  shows "fmt_Sprintf (p @ '' '' @ f) v = app (p @ '' '') (fmt_Sprintf f v)"
proof -
  from assms have "CHR ''%'' \<notin> set (p @ '' '')" by simp
  from doPrintf_literal [OF this, of f v] show ?thesis
    by (simp add: fmt_Sprintf_def)
qed

lemma extraArgs_error: "extraArgs i a = Inl e \<Longrightarrow> e = FormatNotModelled"
proof (induction a arbitrary: i)
  case Nil
  then show ?case by simp
next
  case (Cons x a)
  then show ?case
    by (cases x; cases "extraArgs (Suc i) a") auto
qed

lemma extra_error: "extra a = Inl e \<Longrightarrow> e = FormatNotModelled"
  using extraArgs_error [of 0 a e]
  by (cases "extraArgs 0 a") (auto simp: extra_def split: if_splits)

lemma printArg_error: "printArg arg c = Inl e \<Longrightarrow> e = FormatNotModelled"
  by (cases arg) (auto split: if_splits)

lemma app_error: "app s r = Inl e \<Longrightarrow> r = Inl e"
  by (cases r) simp_all

lemma doPrintf_error: "doPrintf st f a = Inl e \<Longrightarrow> e = FormatNotModelled"
proof (induction st f a rule: doPrintf.induct)
  case (1 a)
  then show ?case by (simp add: extra_error)
next
  case (2 c f a)
  then show ?case by (auto split: if_splits dest: app_error)
next
  case (3 a)
  then show ?case by (auto dest: app_error extra_error)
next
  case (4 c f a)
  then show ?case
    by (auto split: if_splits list.splits sum.splits dest: app_error printArg_error
        simp del: printArg.simps)
next
  case (5 a)
  then show ?case by (auto dest: app_error extra_error)
next
  case (6 c f a)
  then show ?case by (auto split: if_splits list.splits dest: app_error)
qed

lemma Sprintf_quoted_error:
  "fmt_Sprintf ([CHR 0x27] @ ''%s'' @ [CHR 0x27]) [err_val err] =
     Inr ([CHR 0x27] @ (case err of None \<Rightarrow> ''%!s(<nil>)'' | Some e \<Rightarrow> e) @ [CHR 0x27])"
  by (cases err) (simp_all add: fmt_Sprintf_def)

lemma written_Output:
  "written (Logger_Output l cd s w) (logger_out l) =
     written w (logger_out l) @ [Logger_line l cd s w]"
  by (simp add: Logger_Output_def)

subsection \<open>The methods of Log keep the invariant of the stores\<close>

lemma dense_Nil: "enumerates [] Map.empty \<and> dense []"
  by (simp add: enumerates_def dense_def)

lemma stores_ok_initial:
  "nxt w = 0 \<Longrightarrow> \<forall>m. entries (metas w m) = None \<Longrightarrow> stores_ok w"
  using dense_Nil by (auto simp: stores_ok_def entries_of_def)

lemma stores_ok_frame:
  assumes "stores_ok w" and "gomaps w' = gomaps w" and "metas w' = metas w"
    and "nxt w \<le> nxt w'"
  shows "stores_ok w'"
proof -
  have "entries_of w' m = entries_of w m" for m
    by (simp add: entries_of_def assms(2,3) split: option.splits)
  with assms show ?thesis
    by (fastforce simp: stores_ok_def)
qed

lemma stores_ok_set:
  assumes "stores_ok w"
  shows "stores_ok (Meta_set m k v w)"
proof (cases "entries (metas w m)")
  case None
  let ?w = "Meta_set m k v w"
  have e_m: "entries_of ?w m = set_entry Map.empty k v"
    using None by (simp add: Meta_set_def entries_of_def)
  have e_other: "entries_of ?w m' = entries_of w m'" if "m' \<noteq> m" for m'
    using None assms that by (auto simp: Meta_set_def entries_of_def stores_ok_def split: option.splits)
  have d: "\<exists>ps. enumerates ps (entries_of ?w m') \<and> dense ps" for m'
  proof (cases "m' = m")
    case True
    from set_entry_dense [of "[]" Map.empty k v] dense_Nil show ?thesis
      by (simp add: True e_m)
  next
    case False
    with assms show ?thesis by (simp add: e_other stores_ok_def)
  qed
  have a: "\<forall>m' r. entries (metas ?w m') = Some r \<longrightarrow> r < nxt ?w"
    using None assms by (auto simp: Meta_set_def stores_ok_def less_Suc_eq)
  have u: "\<forall>m' m'' r. entries (metas ?w m') = Some r \<longrightarrow> entries (metas ?w m'') = Some r \<longrightarrow> m' = m''"
    using None assms by (fastforce simp: Meta_set_def stores_ok_def split: if_splits)
  from a u d show ?thesis unfolding stores_ok_def by blast
next
  case (Some r)
  let ?w = "Meta_set m k v w"
  have e_m: "entries_of ?w m = set_entry (entries_of w m) k v"
    by (rule entries_of_set)
  have e_other: "entries_of ?w m' = entries_of w m'" if "m' \<noteq> m" for m'
    using Some assms that by (auto simp: Meta_set_def entries_of_def stores_ok_def split: option.splits)
  have d: "\<exists>ps. enumerates ps (entries_of ?w m') \<and> dense ps" for m'
  proof (cases "m' = m")
    case True
    from assms obtain ps where "enumerates ps (entries_of w m)" "dense ps"
      unfolding stores_ok_def by blast
    from set_entry_dense [OF this, of k v] show ?thesis
      by (simp add: True e_m)
  next
    case False
    with assms show ?thesis by (simp add: e_other stores_ok_def)
  qed
  have "metas ?w = metas w" "nxt ?w = nxt w"
    using Some by (simp_all add: Meta_set_def)
  with assms d show ?thesis unfolding stores_ok_def by simp
qed

lemma stores_ok_new_Meta:
  assumes "stores_ok w"
  shows "stores_ok (snd (new_Meta w))"
proof -
  let ?w = "snd (new_Meta w)"
  have e: "entries_of ?w m = (if m = nxt w then Map.empty else entries_of w m)" for m
    by (auto simp: new_Meta_def entries_of_def split: option.splits)
  have d: "\<exists>ps. enumerates ps (entries_of ?w m) \<and> dense ps" for m
    using assms dense_Nil by (auto simp: e stores_ok_def)
  have a: "\<forall>m r. entries (metas ?w m) = Some r \<longrightarrow> r < nxt ?w"
    using assms by (auto simp: new_Meta_def stores_ok_def less_Suc_eq)
  have u: "\<forall>m m' r. entries (metas ?w m) = Some r \<longrightarrow> entries (metas ?w m') = Some r \<longrightarrow> m = m'"
    using assms by (fastforce simp: new_Meta_def stores_ok_def split: if_splits)
  from a u d show ?thesis unfolding stores_ok_def by blast
qed

lemma stores_ok_copy:
  assumes "stores_ok w" and "enumerates ps (entries_of w m)"
  shows "stores_ok (snd (Meta_copy ps m w))"
proof (cases "entries (metas w m)")
  case None
  then have "snd (Meta_copy ps m w) = snd (new_Meta w)"
    by (simp add: Meta_copy_def new_Meta_def)
  with stores_ok_new_Meta [OF assms(1)] show ?thesis by simp
next
  case (Some r)
  let ?w = "snd (Meta_copy ps m w)"
  have cl: "copy_loop ps Map.empty = entries_of w m"
    by (rule copy_loop_enumerates [OF assms(2)])
  have e: "entries_of ?w m' = (if m' = Suc (nxt w) then entries_of w m else entries_of w m')" for m'
    using Some assms(1) by (auto simp: Meta_copy_def entries_of_def cl stores_ok_def split: option.splits)
  have d: "\<exists>ps. enumerates ps (entries_of ?w m') \<and> dense ps" for m'
    using assms(1) by (auto simp: e stores_ok_def)
  have a: "\<forall>m' r. entries (metas ?w m') = Some r \<longrightarrow> r < nxt ?w"
    using Some assms(1) by (auto simp: Meta_copy_def stores_ok_def less_Suc_eq)
  have u: "\<forall>m' m'' r. entries (metas ?w m') = Some r \<longrightarrow> entries (metas ?w m'') = Some r \<longrightarrow> m' = m''"
    using Some assms(1) by (fastforce simp: Meta_copy_def stores_ok_def split: if_splits)
  from a u d show ?thesis unfolding stores_ok_def by blast
qed


lemma stores_ok_dense:
  assumes "stores_ok w" and "enumerates ps (entries_of w m)"
  shows "dense ps"
proof -
  from assms(1) obtain qs where "enumerates qs (entries_of w m)" "dense qs"
    unfolding stores_ok_def by blast
  from dense_transfer [OF this(1) assms(2) this(2)] show ?thesis .
qed

lemma stores_ok_log_New:
  assumes "stores_ok w"
  shows "stores_ok (snd (log_New out flags w))"
  using assms by (rule stores_ok_frame) (simp_all add: log_New_def)

lemma stores_ok_add_Log:
  assumes "stores_ok w"
  shows "stores_ok (w\<lparr>logs := ls, nxt := Suc (nxt w)\<rparr>)"
  using assms by (rule stores_ok_frame) simp_all

lemma stores_ok_newAdvanced:
  "stores_ok w \<Longrightarrow> stores_ok (snd (newAdvanced out flags calldepth w))"
  using stores_ok_add_Log [OF stores_ok_new_Meta [OF stores_ok_log_New [of w out flags]]]
  by (simp add: newAdvanced_def case_prod_beta Let_def)

lemma stores_ok_Log_Set: "stores_ok w \<Longrightarrow> stores_ok (snd (Log_Set a k v w))"
  by (cases a) (simp_all add: Log_Set_def stores_ok_set)

lemma stores_ok_Log_SetError: "stores_ok w \<Longrightarrow> stores_ok (snd (Log_SetError a err w))"
  using stores_ok_Log_Set [of w a "''error''"]
  by (simp add: Log_SetError_def case_prod_beta split: sum.splits)

lemma stores_ok_Log_Copy:
  assumes "stores_ok w" and "enumerates ps (entries_of w (log_Meta (logs w r)))"
  shows "stores_ok (snd (Log_Copy ps (Some r) w))"
proof -
  let ?l = "logs w r"
  let ?w1 = "snd (log_New (log_out ?l) (logger_flags (loggers w (log_Logger ?l))) w)"
  have ok1: "stores_ok ?w1" by (rule stores_ok_log_New [OF assms(1)])
  have "entries_of ?w1 (log_Meta ?l) = entries_of w (log_Meta ?l)"
    by (simp add: log_New_def entries_of_def split: option.splits)
  with assms(2) have "enumerates ps (entries_of ?w1 (log_Meta ?l))" by simp
  from stores_ok_add_Log [OF stores_ok_copy [OF ok1 this]] show ?thesis
    by (simp add: Log_Copy_def case_prod_beta Let_def)
qed

lemma stores_ok_output:
  assumes "stores_ok w"
  shows "stores_ok (Log_output a s w)"
  using assms
  by (rule stores_ok_frame) (simp_all add: Log_output_def Logger_Output_def split: option.splits)

lemma stores_ok_SetFlags:
  assumes "stores_ok w"
  shows "stores_ok (Logger_SetFlags lg flags w)"
  using assms by (rule stores_ok_frame) (simp_all add: Logger_SetFlags_def)

lemma api_reachable_stores_ok: "api_reachable w \<Longrightarrow> stores_ok w"
  by (induction rule: api_reachable.induct)
    (simp_all add: stores_ok_initial stores_ok_newAdvanced stores_ok_SetFlags stores_ok_Log_Set
      stores_ok_Log_SetError stores_ok_Log_Copy stores_ok_output)

lemma api_reachable_dense:
  "api_reachable w \<Longrightarrow> enumerates ps (entries_of w m) \<Longrightarrow> dense ps"
  by (rule stores_ok_dense [OF api_reachable_stores_ok])

subsection \<open>The prefix of a logger\<close>

lemma Log_prefix_dense:
  assumes "enumerates ps (entries_of w (log_Meta (logs w r)))" "dense ps" "ps \<noteq> []"
  shows "Log_prefix ps (Some r) w = Inr (bracketed ps)"
proof -
  have "fmt_Sprintf (''['' @ ''%s'' @ '']'') [VString s] = Inr (''['' @ s @ '']'')" for s
    by (rule Sprintf_wrap) simp_all
  with format_entries_dense [OF assms(1,2), of "'' ''" "''[%s]''"]
    enumerates_empty [OF assms(1)] assms(3)
  show ?thesis
    by (simp add: Log_prefix_def Meta_format_def bracketed_def)
qed

lemma Log_prefix_empty:
  "entries_of w (log_Meta (logs w r)) = Map.empty \<Longrightarrow> Log_prefix ps (Some r) w = Inr []"
  by (simp add: Log_prefix_def Meta_format_def format_entries_empty)

lemma bracketed_not_empty: "bracketed ps \<noteq> []"
  by (simp add: bracketed_def)

lemma Log_Sprint_prefix:
  "Log_prefix ps a w = Inr p \<Longrightarrow>
     Log_Sprint ps a v w = Inr (if p \<noteq> [] then p @ '' '' @ fmt_Sprint v else fmt_Sprint v)"
  using Sprint_prefix [of p v] by (simp add: Log_Sprint_def Log_buildPrefixArgs_def)

lemma Log_Sprintf_prefix:
  "Log_prefix ps a w = Inr p \<Longrightarrow>
     Log_Sprintf ps a f v w = fmt_Sprintf (if p \<noteq> [] then p @ '' '' @ f else f) v"
  by (simp add: Log_Sprintf_def Log_addPrefix_def)

lemma Log_Sprintln_prefix:
  "Log_prefix ps a w = Inr p \<Longrightarrow>
     Log_Sprintln ps a v w =
       Inr (fmt_Sprintln (if p \<noteq> [] then VString p # VString '' '' # v else v))"
  by (simp add: Log_Sprintln_def Log_buildPrefixArgs_def)

lemma Log_prefix_reachable:
  assumes "api_reachable w" and "enumerates ps (entries_of w (log_Meta (logs w r)))"
  shows "Log_prefix ps (Some r) w = Inr (if ps = [] then [] else bracketed ps)"
proof (cases "ps = []")
  case True
  with enumerates_empty [OF assms(2)] Log_prefix_empty [of w r ps] show ?thesis by simp
next
  case False
  from Log_prefix_dense [OF assms(2) api_reachable_dense [OF assms] False] False
  show ?thesis by simp
qed

subsection \<open>The example loggers\<close>

lemma test_world_log:
  "logs test_world 2 =
     \<lparr>log_Logger = 0, log_Meta = Suc 0, log_out = Writer 0, log_calldepth = 3\<rparr>"
  by (simp add: test_world_def New_def newAdvanced_def log_New_def new_Meta_def world0_def
      Logger_SetFlags_def Log_Set_def Meta_set_def defaultCalldepth_def)

lemma test_world_logger:
  "loggers test_world 0 = \<lparr>logger_out = Writer 0, logger_flags = 0\<rparr>"
  by (simp add: test_world_def New_def newAdvanced_def log_New_def new_Meta_def world0_def
      Logger_SetFlags_def Log_Set_def Meta_set_def defaultCalldepth_def)

lemma test_world_entries:
  "entries_of test_world (Suc 0) =
     [''foo'' \<mapsto> \<lparr>entry_value = VString ''bar'', entry_order = 0\<rparr>,
      ''key'' \<mapsto> \<lparr>entry_value = VInt 7, entry_order = 1\<rparr>]"
  by (simp add: test_world_def New_def newAdvanced_def log_New_def new_Meta_def world0_def
      Logger_SetFlags_def Log_Set_def Meta_set_def defaultCalldepth_def entries_of_def
      set_entry_def)

lemma test_world_written: "written test_world (Writer 0) = []"
  by (simp add: test_world_def New_def newAdvanced_def log_New_def new_Meta_def world0_def
      Logger_SetFlags_def Log_Set_def Meta_set_def defaultCalldepth_def)

lemma pct_world_log: "log_Meta (logs pct_world 2) = Suc 0"
  by (simp add: pct_world_def New_def newAdvanced_def log_New_def new_Meta_def world0_def
      Log_Set_def Meta_set_def defaultCalldepth_def)

lemma pct_world_entries:
  "entries_of pct_world (Suc 0) = [''k'' \<mapsto> \<lparr>entry_value = VString ''%s'', entry_order = 0\<rparr>]"
  by (simp add: pct_world_def New_def newAdvanced_def log_New_def new_Meta_def world0_def
      Log_Set_def Meta_set_def defaultCalldepth_def entries_of_def set_entry_def)

lemma pct_world_prefix:
  "Log_prefix [(''k'', \<lparr>entry_value = VString ''%s'', entry_order = 0\<rparr>)] (Some 2) pct_world =
     Inr ''[k=%s]''"
proof -
  let ?ps = "[(''k'', \<lparr>entry_value = VString ''%s'', entry_order = 0\<rparr>)]"
  have "enumerates ?ps (entries_of pct_world (log_Meta (logs pct_world 2)))"
    by (simp add: enumerates_def pct_world_log pct_world_entries)
  moreover have "dense ?ps" by (simp add: dense_def)
  ultimately have "Log_prefix ?ps (Some 2) pct_world = Inr (bracketed ?ps)"
    by (rule Log_prefix_dense) simp
  then show ?thesis by (simp add: bracketed_def key_value_def)
qed

lemma api_reachable_test_world: "api_reachable test_world"
  unfolding test_world_def New_def
  by (intro api_reachable.intros) (simp_all add: world0_def)

lemma api_reachable_fresh_world: "api_reachable fresh_world"
  unfolding fresh_world_def New_def
  by (intro api_reachable.intros) (simp_all add: world0_def)

lemma fresh_world_prefix: "Log_prefix [] (Some 2) fresh_world = Inr []"
  by (rule Log_prefix_empty)
    (simp add: fresh_world_def New_def newAdvanced_def log_New_def new_Meta_def world0_def
      entries_of_def)

subsection \<open>The nil logger\<close>

text \<open>
  Claim C5.  On the nil logger, for all arguments: \<open>Copy\<close>, \<open>Set\<close>, \<open>SetError\<close>,
  \<open>With\<close> and \<open>WithError\<close> return nil and change nothing; \<open>Sprint\<close>, \<open>Sprintf\<close> and
  \<open>Sprintln\<close> return what \<open>fmt.Sprint\<close>, \<open>fmt.Sprintf\<close> and \<open>fmt.Sprintln\<close> return
  for the arguments; \<open>Print\<close>, \<open>Printf\<close> and \<open>Println\<close> return normally after handing
  that string to the fallback logger, whose writer is standard output, which
  receives one line more; \<open>Panic\<close>, \<open>Panicf\<close> and \<open>Panicln\<close> write the same line and
  panic with the plain string; \<open>Fatal\<close>, \<open>Fatalf\<close> and \<open>Fatalln\<close> write it and exit
  with status 1.  No call ends in a run-time panic: the only abnormal outcomes
  are these panics and exits (and, where \<open>fmt.Sprintf\<close> is called, a format
  string outside the modelled fragment of \<open>fmt\<close>).
\<close>

theorem nil_logger_degrades:
  "Log_Copy ps None w = (None, w) \<and>
   Log_Set None k v w = (None, w) \<and>
   Log_SetError None err w = (Inr None, w) \<and>
   Log_With ps None k v w = (None, w) \<and>
   Log_WithError ps None err w = (Inr None, w) \<and>
   Log_Sprint ps None a w = Inr (fmt_Sprint a) \<and>
   Log_Sprintf ps None f a w = fmt_Sprintf f a \<and>
   Log_Sprintln ps None a w = Inr (fmt_Sprintln a) \<and>
   (\<forall>e. fmt_Sprintf f a = Inl e \<longrightarrow> e = FormatNotModelled) \<and>
   Log_Print ps None a w =
     (Inr (), Logger_Output (fallback w) defaultCalldepth (fmt_Sprint a) w) \<and>
   Log_Println ps None a w =
     (Inr (), Logger_Output (fallback w) defaultCalldepth (fmt_Sprintln a) w) \<and>
   (\<forall>s. fmt_Sprintf f a = Inr s \<longrightarrow>
      Log_Printf ps None f a w = (Inr (), Logger_Output (fallback w) defaultCalldepth s w)) \<and>
   logger_out (fallback w) = Stdout \<and>
   written (Logger_Output (fallback w) defaultCalldepth s w) Stdout =
     written w Stdout @ [Logger_line (fallback w) defaultCalldepth s w] \<and>
   Log_Panic ps None a w =
     (Panic (fmt_Sprint a), Logger_Output (fallback w) defaultCalldepth (fmt_Sprint a) w) \<and>
   Log_Panicln ps None a w =
     (Panic (fmt_Sprintln a), Logger_Output (fallback w) defaultCalldepth (fmt_Sprintln a) w) \<and>
   (\<forall>s. fmt_Sprintf f a = Inr s \<longrightarrow>
      Log_Panicf ps None f a w = (Panic s, Logger_Output (fallback w) defaultCalldepth s w)) \<and>
   Log_Fatal ps None a w =
     (Exit 1, Logger_Output (fallback w) defaultCalldepth (fmt_Sprint a) w) \<and>
   Log_Fatalln ps None a w =
     (Exit 1, Logger_Output (fallback w) defaultCalldepth (fmt_Sprintln a) w) \<and>
   (\<forall>s. fmt_Sprintf f a = Inr s \<longrightarrow>
      Log_Fatalf ps None f a w = (Exit 1, Logger_Output (fallback w) defaultCalldepth s w))"
proof -
  have o: "logger_out (fallback w) = Stdout"
    by (simp add: fallback_def)
  have "written (Logger_Output (fallback w) defaultCalldepth s w) Stdout =
     written w Stdout @ [Logger_line (fallback w) defaultCalldepth s w]"
    using written_Output [of "fallback w" defaultCalldepth s w] by (simp add: o)
  moreover have "\<forall>e. fmt_Sprintf f a = Inl e \<longrightarrow> e = FormatNotModelled"
    by (auto simp: fmt_Sprintf_def dest: doPrintf_error)
  moreover have se: "Log_SetError None err w = (Inr None, w)"
    unfolding Log_SetError_def Sprintf_quoted_error by (simp add: Log_Set_def)
  moreover have "Log_WithError ps None err w = (Inr None, w)"
    by (simp add: Log_WithError_def Log_Copy_def se)
  ultimately show ?thesis
    by (simp add: Log_Copy_def Log_Set_def Log_With_def Log_Sprint_def Log_Sprintf_def Log_Sprintln_def
        Log_buildPrefixArgs_def Log_addPrefix_def Log_prefix_def Log_Print_def Log_Println_def
        Log_Printf_def Log_output_def Log_Panic_def Log_Panicln_def Log_Panicf_def
        Log_Fatal_def Log_Fatalln_def Log_Fatalf_def o)
qed

theorem nil_logger_degrades_witness:
  "Log_Sprint [] None [VString ''foo'', VString ''bar''] world0 = Inr ''foobar'' \<and>
   Log_Sprintf [] None ''%s %d'' [VString ''foo'', VInt 7] world0 = Inr ''foo 7'' \<and>
   Log_Sprintln [] None [VString ''foo'', VString ''bar''] world0 =
     Inr (''foo bar'' @ [CHR 0x0A]) \<and>
   fst (Log_Panic [] None [VString ''foo''] world0) = Panic ''foo'' \<and>
   written (snd (Log_Print [] None [VString ''foo''] world0)) Stdout =
     [''2009/11/10 23:00:00 foo'' @ [CHR 0x0A]] \<and>
   Log_With [] None ''foo'' (VString ''bar'') world0 = (None, world0)"
  using nil_logger_degrades [of "[]" world0 "''foo''" "VString ''bar''" None
      "[VString ''foo'', VString ''bar'']" "''%s %d''" "''foo''"]
    nil_logger_degrades [of "[]" world0 "''foo''" "VString ''bar''" None
      "[VString ''foo'']" "''%s %d''" "''foo''"]
    nil_logger_degrades [of "[]" world0 "''foo''" "VString ''bar''" None
      "[VString ''foo'', VInt 7]" "''%s %d''" "''foo''"]
  by (simp add: fmt_Sprint_def fmt_Sprintln_def fmt_Sprintf_def itoa_def itoa_nat.simps
      Logger_line_def fallback_def world0_def defaultCalldepth_def)

subsection \<open>Sprint\<close>

text \<open>
  Claim C7.  For every logger that is not nil, in every state reached through
  the methods of \<open>Log\<close>, and for all arguments: when the metadata is not empty,
  \<open>Sprint\<close> returns the bracketed prefix, one space, and what \<open>fmt.Sprint\<close> returns
  for the arguments; when the metadata is empty, \<open>Sprint\<close> returns what
  \<open>fmt.Sprint\<close> returns, with no prefix and no brackets.  In any state at all,
  whenever the prefix is a string \<open>p\<close> that is not empty, \<open>Sprint\<close> returns \<open>p\<close>, one
  space, and the plain rendering.
\<close>

theorem Sprint_prefix_one_space:
  assumes "api_reachable w" and "enumerates ps (entries_of w (log_Meta (logs w r)))"
  shows "(entries_of w (log_Meta (logs w r)) \<noteq> Map.empty \<longrightarrow>
            Log_Sprint ps (Some r) v w = Inr (bracketed ps @ '' '' @ fmt_Sprint v)) \<and>
         (entries_of w (log_Meta (logs w r)) = Map.empty \<longrightarrow>
            Log_Sprint ps (Some r) v w = Inr (fmt_Sprint v)) \<and>
         (\<forall>p. Log_prefix ps (Some r) w = Inr p \<longrightarrow> p \<noteq> [] \<longrightarrow>
            Log_Sprint ps (Some r) v w = Inr (p @ '' '' @ fmt_Sprint v))"
  using Log_prefix_reachable [OF assms] enumerates_empty [OF assms(2)]
    Log_Sprint_prefix [of ps "Some r" w _ v] bracketed_not_empty [of ps]
  by (cases "ps = []") simp_all

theorem Sprint_prefix_one_space_witness:
  "Log_Sprint
     [(''key'', \<lparr>entry_value = VInt 7, entry_order = 1\<rparr>),
      (''foo'', \<lparr>entry_value = VString ''bar'', entry_order = 0\<rparr>)]
     (Some 2) [VString ''test''] test_world = Inr ''[foo=bar key=7] test'' \<and>
   Log_Sprint [] (Some 2) [VString ''foo''] fresh_world = Inr ''foo''"
proof -
  let ?ps = "[(''key'', \<lparr>entry_value = VInt 7, entry_order = 1\<rparr>),
      (''foo'', \<lparr>entry_value = VString ''bar'', entry_order = 0\<rparr>)]"
  have e: "enumerates ?ps (entries_of test_world (log_Meta (logs test_world 2)))"
    by (auto simp: enumerates_def test_world_log test_world_entries)
  have ne: "entries_of test_world (log_Meta (logs test_world 2)) \<noteq> Map.empty"
    by (simp add: test_world_log test_world_entries)
  have f: "entries_of fresh_world (log_Meta (logs fresh_world 2)) = Map.empty"
    by (simp add: fresh_world_def New_def newAdvanced_def log_New_def new_Meta_def world0_def
        entries_of_def)
  then have e0: "enumerates [] (entries_of fresh_world (log_Meta (logs fresh_world 2)))"
    by (simp add: enumerates_def)
  from Sprint_prefix_one_space [OF api_reachable_test_world e, of "[VString ''test'']"] ne
    Sprint_prefix_one_space [OF api_reachable_fresh_world e0, of "[VString ''foo'']"] f
  show ?thesis
    by (simp add: bracketed_def key_value_def fmt_Sprint_def itoa_def itoa_nat.simps)
qed

subsection \<open>Panic\<close>

text \<open>
  Claim C6.  For every logger that is not nil and whose metadata is not empty,
  in every state reached through the methods of \<open>Log\<close>, and for all arguments:
  \<open>Panic\<close>, \<open>Panicf\<close> and \<open>Panicln\<close> hand the string of \<open>Sprint\<close>, \<open>Sprintf\<close> and
  \<open>Sprintln\<close>, which starts with the bracketed prefix, to the logger's writer,
  which receives one line more, and the outcome is a panic that carries what
  \<open>fmt.Sprint\<close>, \<open>fmt.Sprintf\<close> and \<open>fmt.Sprintln\<close> return for the arguments alone.
\<close>

theorem Panic_carries_plain_message:
  assumes "api_reachable w" and "enumerates ps (entries_of w (log_Meta (logs w r)))"
    and "entries_of w (log_Meta (logs w r)) \<noteq> Map.empty"
  shows
    "Log_Panic ps (Some r) v w =
       (Panic (fmt_Sprint v),
        Logger_Output (loggers w (log_Logger (logs w r))) (log_calldepth (logs w r))
          (bracketed ps @ '' '' @ fmt_Sprint v) w) \<and>
     Log_Panicln ps (Some r) v w =
       (Panic (fmt_Sprintln v),
        Logger_Output (loggers w (log_Logger (logs w r))) (log_calldepth (logs w r))
          (fmt_Sprintln (VString (bracketed ps) # VString '' '' # v)) w) \<and>
     (\<forall>s t. fmt_Sprintf (bracketed ps @ '' '' @ f) v = Inr s \<longrightarrow> fmt_Sprintf f v = Inr t \<longrightarrow>
        Log_Panicf ps (Some r) f v w =
          (Panic t,
           Logger_Output (loggers w (log_Logger (logs w r))) (log_calldepth (logs w r)) s w)) \<and>
     (\<forall>t. CHR ''%'' \<notin> set (bracketed ps) \<longrightarrow> fmt_Sprintf f v = Inr t \<longrightarrow>
        Log_Panicf ps (Some r) f v w =
          (Panic t,
           Logger_Output (loggers w (log_Logger (logs w r))) (log_calldepth (logs w r))
             (bracketed ps @ '' '' @ t) w)) \<and>
     written
       (Logger_Output (loggers w (log_Logger (logs w r))) (log_calldepth (logs w r)) s w)
       (logger_out (loggers w (log_Logger (logs w r)))) =
     written w (logger_out (loggers w (log_Logger (logs w r)))) @
       [Logger_line (loggers w (log_Logger (logs w r))) (log_calldepth (logs w r)) s w]"
proof -
  from assms(3) enumerates_empty [OF assms(2)] have n: "ps \<noteq> []" by simp
  have p: "Log_prefix ps (Some r) w = Inr (bracketed ps)"
    using Log_prefix_reachable [OF assms(1,2)] n by simp
  have ne: "bracketed ps \<noteq> []" by (rule bracketed_not_empty)
  have 1: "Log_Sprint ps (Some r) v w = Inr (bracketed ps @ '' '' @ fmt_Sprint v)"
    using Log_Sprint_prefix [OF p, of v] ne by simp
  have 2: "Log_Sprintln ps (Some r) v w =
      Inr (fmt_Sprintln (VString (bracketed ps) # VString '' '' # v))"
    using Log_Sprintln_prefix [OF p, of v] ne by simp
  have 3: "Log_Sprintf ps (Some r) f v w = fmt_Sprintf (bracketed ps @ '' '' @ f) v"
    using Log_Sprintf_prefix [OF p, of f v] ne by simp
  have 4: "fmt_Sprintf (bracketed ps @ '' '' @ f) v = Inr (bracketed ps @ '' '' @ t)"
    if "CHR ''%'' \<notin> set (bracketed ps)" "fmt_Sprintf f v = Inr t" for t
    using Sprintf_literal_prefix [OF that(1), of f v] that(2) by simp
  show ?thesis
    using 4 by (simp add: Log_Panic_def Log_Panicln_def Log_Panicf_def 1 2 3 Log_output_def
        written_Output)
qed

theorem Panic_carries_plain_message_witness:
  "fst (Log_Panic
     [(''key'', \<lparr>entry_value = VInt 7, entry_order = 1\<rparr>),
      (''foo'', \<lparr>entry_value = VString ''bar'', entry_order = 0\<rparr>)]
     (Some 2) [VString ''xxx''] test_world) = Panic ''xxx'' \<and>
   written (snd (Log_Panic
     [(''key'', \<lparr>entry_value = VInt 7, entry_order = 1\<rparr>),
      (''foo'', \<lparr>entry_value = VString ''bar'', entry_order = 0\<rparr>)]
     (Some 2) [VString ''xxx''] test_world)) (Writer 0) =
     [''[foo=bar key=7] xxx'' @ [CHR 0x0A]]"
proof -
  let ?ps = "[(''key'', \<lparr>entry_value = VInt 7, entry_order = 1\<rparr>),
      (''foo'', \<lparr>entry_value = VString ''bar'', entry_order = 0\<rparr>)]"
  have e: "enumerates ?ps (entries_of test_world (log_Meta (logs test_world 2)))"
    by (auto simp: enumerates_def test_world_log test_world_entries)
  have ne: "entries_of test_world (log_Meta (logs test_world 2)) \<noteq> Map.empty"
    by (simp add: test_world_log test_world_entries)
  note t = Panic_carries_plain_message [OF api_reachable_test_world e ne,
      of "[VString ''xxx'']" "[]" "bracketed ?ps @ '' '' @ fmt_Sprint [VString ''xxx'']"]
  from t show ?thesis
    by (simp add: test_world_log test_world_logger test_world_written Logger_line_def
        bracketed_def key_value_def fmt_Sprint_def itoa_def itoa_nat.simps)
qed

subsection \<open>Sprintf\<close>

text \<open>
  Claim C8, amended.  \<open>Sprintf\<close> hands the prefix, a space and the format string
  to \<open>fmt.Sprintf\<close> as one format string (the format string alone when the prefix
  is empty).  For every logger whose prefix \<open>p\<close> is not empty and holds no \<open>%\<close>,
  the result is \<open>p\<close>, a space and what \<open>fmt.Sprintf\<close> returns for the format and the
  arguments.  For the logger made by \<open>New(t).Set("k", "%s")\<close> the prefix is
  \<open>[k=%s]\<close>, and \<open>Sprintf("%d", 7)\<close> returns \<open>[k=%!s(int=7)] %!d(MISSING)\<close>: the
  verb in the prefix has taken the argument, where prefix, space and
  \<open>fmt.Sprintf("%d", 7)\<close> would be \<open>[k=%s] 7\<close>.
\<close>

theorem Sprintf_prefix_in_format:
  "(Log_prefix ps (Some r) w = Inr p \<longrightarrow> p \<noteq> [] \<longrightarrow> CHR ''%'' \<notin> set p \<longrightarrow>
      (\<forall>t. fmt_Sprintf f v = Inr t \<longrightarrow> Log_Sprintf ps (Some r) f v w = Inr (p @ '' '' @ t)) \<and>
      (\<forall>e. fmt_Sprintf f v = Inl e \<longrightarrow> Log_Sprintf ps (Some r) f v w = Inl e)) \<and>
   (Log_prefix ps (Some r) w = Inr p \<longrightarrow>
      Log_Sprintf ps (Some r) f v w = fmt_Sprintf (if p \<noteq> [] then p @ '' '' @ f else f) v) \<and>
   enumerates [(''k'', \<lparr>entry_value = VString ''%s'', entry_order = 0\<rparr>)]
     (entries_of pct_world (log_Meta (logs pct_world 2))) \<and>
   Log_prefix [(''k'', \<lparr>entry_value = VString ''%s'', entry_order = 0\<rparr>)] (Some 2) pct_world =
     Inr ''[k=%s]'' \<and>
   Log_Sprintf [(''k'', \<lparr>entry_value = VString ''%s'', entry_order = 0\<rparr>)] (Some 2)
     ''%d'' [VInt 7] pct_world = Inr ''[k=%!s(int=7)] %!d(MISSING)'' \<and>
   fmt_Sprintf ''%d'' [VInt 7] = Inr ''7''"
proof -
  have "Log_Sprintf ps (Some r) f v w = app (p @ '' '') (fmt_Sprintf f v)"
    if "Log_prefix ps (Some r) w = Inr p" "p \<noteq> []" "CHR ''%'' \<notin> set p"
    using Log_Sprintf_prefix [OF that(1), of f v] Sprintf_literal_prefix [OF that(3), of f v]
      that(2) by simp
  moreover have "Log_Sprintf ps (Some r) f v w =
      fmt_Sprintf (if p \<noteq> [] then p @ '' '' @ f else f) v"
    if "Log_prefix ps (Some r) w = Inr p"
    by (rule Log_Sprintf_prefix [OF that])
  moreover have "enumerates [(''k'', \<lparr>entry_value = VString ''%s'', entry_order = 0\<rparr>)]
     (entries_of pct_world (log_Meta (logs pct_world 2)))"
    by (simp add: enumerates_def pct_world_log pct_world_entries)
  moreover have "Log_Sprintf [(''k'', \<lparr>entry_value = VString ''%s'', entry_order = 0\<rparr>)]
      (Some 2) ''%d'' [VInt 7] pct_world = Inr ''[k=%!s(int=7)] %!d(MISSING)''"
    using Log_Sprintf_prefix [OF pct_world_prefix, of "''%d''" "[VInt 7]"]
    by (simp add: fmt_Sprintf_def itoa_def itoa_nat.simps)
  moreover have "fmt_Sprintf ''%d'' [VInt 7] = Inr ''7''"
    by (simp add: fmt_Sprintf_def itoa_def itoa_nat.simps)
  ultimately show ?thesis
    using pct_world_prefix by simp
qed

theorem Sprintf_prefix_in_format_witness:
  "Log_Sprintf
     [(''key'', \<lparr>entry_value = VInt 7, entry_order = 1\<rparr>),
      (''foo'', \<lparr>entry_value = VString ''bar'', entry_order = 0\<rparr>)]
     (Some 2) ''%s %d'' [VString ''foo'', VInt 7] test_world = Inr ''[foo=bar key=7] foo 7''"
proof -
  let ?ps = "[(''key'', \<lparr>entry_value = VInt 7, entry_order = 1\<rparr>),
      (''foo'', \<lparr>entry_value = VString ''bar'', entry_order = 0\<rparr>)]"
  have e: "enumerates ?ps (entries_of test_world (log_Meta (logs test_world 2)))"
    by (auto simp: enumerates_def test_world_log test_world_entries)
  have d: "dense ?ps" by (simp add: dense_def)
  have "Log_prefix ?ps (Some 2) test_world = Inr (bracketed ?ps)"
    using e d by (rule Log_prefix_dense) simp
  then have p: "Log_prefix ?ps (Some 2) test_world = Inr ''[foo=bar key=7]''"
    by (simp add: bracketed_def key_value_def itoa_def itoa_nat.simps)
  have t: "fmt_Sprintf ''%s %d'' [VString ''foo'', VInt 7] = Inr ''foo 7''"
    by (simp add: fmt_Sprintf_def itoa_def itoa_nat.simps)
  from Sprintf_prefix_in_format [of ?ps 2 test_world "''[foo=bar key=7]''" "''%s %d''"
      "[VString ''foo'', VInt 7]"] p t
  show ?thesis by simp
qed

text \<open>
  The claim as stated, for every logger whose prefix holds no \<open>%\<close>, fails for a
  logger with no metadata: its prefix is empty, \<open>addPrefix\<close> leaves the format
  string as it is, and \<open>Sprintf("x")\<close> is \<open>x\<close>, not the empty prefix, a space and
  \<open>x\<close>.
\<close>

theorem Sprintf_empty_prefix_counterexample:
  "Log_prefix [] (Some 2) fresh_world = Inr [] \<and>
   CHR ''%'' \<notin> set ([] :: string) \<and>
   fmt_Sprintf ''x'' [] = Inr ''x'' \<and>
   Log_Sprintf [] (Some 2) ''x'' [] fresh_world = Inr ''x'' \<and>
   Log_Sprintf [] (Some 2) ''x'' [] fresh_world \<noteq> Inr ([] @ '' '' @ ''x'')"
  using Log_Sprintf_prefix [OF fresh_world_prefix, of "''x''" "[]"]
  by (simp add: fresh_world_prefix fmt_Sprintf_def)

subsection \<open>Copy\<close>

text \<open>
  Claim C9.  For every logger that is not nil, whatever its call depth, \<open>Copy\<close>
  returns a logger whose call depth is 3, whose writer is the writer of the
  source, and whose standard logger writes to that writer with the flags of the
  source's standard logger.
\<close>

theorem Copy_resets_calldepth:
  "\<exists>c. fst (Log_Copy ps (Some r) w) = Some c \<and>
     log_calldepth (logs (snd (Log_Copy ps (Some r) w)) c) = 3 \<and>
     log_out (logs (snd (Log_Copy ps (Some r) w)) c) = log_out (logs w r) \<and>
     logger_out (loggers (snd (Log_Copy ps (Some r) w))
        (log_Logger (logs (snd (Log_Copy ps (Some r) w)) c))) = log_out (logs w r) \<and>
     logger_flags (loggers (snd (Log_Copy ps (Some r) w))
        (log_Logger (logs (snd (Log_Copy ps (Some r) w)) c))) =
       logger_flags (loggers w (log_Logger (logs w r)))"
  by (auto simp: Log_Copy_def log_New_def Meta_copy_def defaultCalldepth_def Let_def
      split: option.splits)

theorem Copy_resets_calldepth_witness:
  "log_calldepth (logs deep_world 2) = 7 \<and>
   (\<exists>c. fst (Log_Copy [] (Some 2) deep_world) = Some c \<and>
      log_calldepth (logs (snd (Log_Copy [] (Some 2) deep_world)) c) = 3)"
proof -
  have "log_calldepth (logs deep_world 2) = 7"
    by (simp add: deep_world_def newAdvanced_def log_New_def new_Meta_def world0_def)
  with Copy_resets_calldepth [of "[]" 2 deep_world] show ?thesis by blast
qed

section \<open>The package's tests, run on the model\<close>

text \<open>
  \<open>log2 := log.With("foo", "baz")\<close>, \<open>log2.Print("test")\<close>, \<open>log.Print("test")\<close> on
  the logger of the test: the copy shows \<open>baz\<close>, the original still shows \<open>bar\<close>.
\<close>

lemma test_With_leaves_original:
  "(let (l2, w1) =
          Log_With
            [(''key'', \<lparr>entry_value = VInt 7, entry_order = 1\<rparr>),
             (''foo'', \<lparr>entry_value = VString ''bar'', entry_order = 0\<rparr>)]
            (Some 2) ''foo'' (VString ''baz'') test_world;
        (r1, w2) =
          Log_Print
            [(''foo'', \<lparr>entry_value = VString ''baz'', entry_order = 0\<rparr>),
             (''key'', \<lparr>entry_value = VInt 7, entry_order = 1\<rparr>)]
            l2 [VString ''test''] w1;
        (r2, w3) =
          Log_Print
            [(''foo'', \<lparr>entry_value = VString ''bar'', entry_order = 0\<rparr>),
             (''key'', \<lparr>entry_value = VInt 7, entry_order = 1\<rparr>)]
            (Some 2) [VString ''test''] w2
    in written w3 (Writer 0)) =
     [''[foo=baz key=7] test'' @ [CHR 0x0A], ''[foo=bar key=7] test'' @ [CHR 0x0A]]"
  by (simp add: New_def newAdvanced_def log_New_def new_Meta_def world0_def
      Logger_SetFlags_def Log_Set_def Meta_set_def defaultCalldepth_def entries_of_def
      set_entry_def Log_With_def Log_Copy_def Meta_copy_def Log_Print_def Log_Sprint_def
      Log_buildPrefixArgs_def Log_prefix_def Meta_format_def format_entries_def
      Log_output_def Logger_Output_def Logger_line_def fmt_Sprintf_def
      fmt_Sprint_def itoa_def itoa_nat.simps test_world_def Let_def numeral_2_eq_2)

text \<open>\<open>log.SetError(errors.New("bad"))\<close>, \<open>log.Print("test")\<close>: the error text is quoted.\<close>

lemma test_SetError_quoted:
  "(let (l, w1) = Log_SetError (Some 2) (Some ''bad'') test_world;
        (r1, w2) =
          Log_Print
            [(''error'',
              \<lparr>entry_value = VString ([CHR 0x27] @ ''bad'' @ [CHR 0x27]), entry_order = 2\<rparr>),
             (''foo'', \<lparr>entry_value = VString ''bar'', entry_order = 0\<rparr>),
             (''key'', \<lparr>entry_value = VInt 7, entry_order = 1\<rparr>)]
            (Some 2) [VString ''test''] w1
    in written w2 (Writer 0)) =
     [''[foo=bar key=7 error='' @ [CHR 0x27] @ ''bad'' @ [CHR 0x27] @ ''] test'' @ [CHR 0x0A]]"
  by (simp add: New_def newAdvanced_def log_New_def new_Meta_def world0_def
      Logger_SetFlags_def Log_Set_def Meta_set_def defaultCalldepth_def entries_of_def
      set_entry_def Log_Print_def Log_Sprint_def
      Log_buildPrefixArgs_def Log_prefix_def Meta_format_def format_entries_def
      Log_output_def Logger_Output_def Logger_line_def Log_SetError_def fmt_Sprintf_def
      fmt_Sprint_def itoa_def itoa_nat.simps test_world_def Let_def numeral_3_eq_3)

text \<open>\<open>New(t).Print("foo")\<close> with the standard flags: the header comes first.\<close>

lemma test_timestamp:
  "(let (l, w1) = New (Writer 0) world0;
        (r1, w2) = Log_Print [] l [VString ''foo''] w1
    in written w2 (Writer 0)) = [''2009/11/10 23:00:00 foo'' @ [CHR 0x0A]]"
  by (simp add: New_def newAdvanced_def log_New_def new_Meta_def world0_def
      defaultCalldepth_def entries_of_def Log_Print_def Log_Sprint_def
      Log_buildPrefixArgs_def Log_prefix_def Meta_format_def format_entries_def
      Log_output_def Logger_Output_def Logger_line_def fmt_Sprint_def Let_def)

end
